theory Spec2Isabelle
  imports Complex_Main
begin

section \<open>Values of the host language\<close>

text \<open>
  A JavaScript number is an IEEE 754 double. \<open>Finite x\<close> is the finite double of value
  \<open>x\<close>, \<open>Finite 0\<close> being \<open>+0\<close>, and \<open>NegZero\<close> is \<open>-0\<close>. The type does not keep a real that
  is no double out of \<open>Finite\<close>: what is proved of every real holds of the doubles, and
  the one operation of the code that rounds, the division, returns a double.
\<close>

datatype number = Finite real | NegZero | PosInfinity | NegInfinity | NaN

text \<open>\<open>!x\<close> on a number: both zeros and \<open>NaN\<close> are falsy.\<close>

fun truthy :: "number \<Rightarrow> bool" where
  "truthy (Finite q) = (q \<noteq> 0)"
| "truthy NegZero = False"
| "truthy NaN = False"
| "truthy PosInfinity = True"
| "truthy NegInfinity = True"

text \<open>The sign bit, the zeros, the infinities, and the value of a finite number.\<close>

fun negative :: "number \<Rightarrow> bool" where
  "negative (Finite q) = (q < 0)"
| "negative NegZero = True"
| "negative NegInfinity = True"
| "negative PosInfinity = False"
| "negative NaN = False"

fun is_zero :: "number \<Rightarrow> bool" where
  "is_zero (Finite q) = (q = 0)"
| "is_zero NegZero = True"
| "is_zero x = False"

fun is_infinity :: "number \<Rightarrow> bool" where
  "is_infinity PosInfinity = True"
| "is_infinity NegInfinity = True"
| "is_infinity x = False"

fun finite_value :: "number \<Rightarrow> real" where
  "finite_value (Finite q) = q"
| "finite_value x = 0"

text \<open>
  The double of a real, rounding to nearest, a tie going to the even significand.
  \<open>ilog2 n\<close> is the position of the leading bit of \<open>n\<close>, and \<open>exponent x\<close> the \<open>e\<close> with
  \<open>2 ^ e \<le> x < 2 ^ (e + 1)\<close>, for a positive \<open>x\<close>. Doubles of that size are the multiples
  of \<open>ulp x\<close>, which is \<open>2 ^ (e - 52)\<close> and never below \<open>2 ^ -1074\<close>, the step of the
  subnormal numbers. The nearest multiple that reaches \<open>2 ^ 1024\<close> is an infinity, and a
  nearest multiple of zero keeps the sign of the real.
\<close>

function ilog2 :: "int \<Rightarrow> nat" where
  "ilog2 n = (if n < 2 then 0 else Suc (ilog2 (n div 2)))"
  by pat_completeness auto
termination
  by (relation "measure nat") auto

declare ilog2.simps [simp del]

definition exponent :: "real \<Rightarrow> int" where
  "exponent x =
     (if 1 \<le> x then int (ilog2 \<lfloor>x\<rfloor>)
      else - int (Suc (ilog2 (\<lceil>1 / x\<rceil> - 1))))"

definition round_even :: "real \<Rightarrow> int" where
  "round_even x =
     (if x - of_int \<lfloor>x\<rfloor> < 1 / 2 then \<lfloor>x\<rfloor>
      else if 1 / 2 < x - of_int \<lfloor>x\<rfloor> then \<lfloor>x\<rfloor> + 1
      else if even \<lfloor>x\<rfloor> then \<lfloor>x\<rfloor> else \<lfloor>x\<rfloor> + 1)"

definition ulp :: "real \<Rightarrow> real" where
  "ulp x = 2 powi (max (exponent x) (- 1022) - 52)"

definition nearest_magnitude :: "real \<Rightarrow> real" where
  "nearest_magnitude x = of_int (round_even (x / ulp x)) * ulp x"

definition to_double :: "real \<Rightarrow> number" where
  "to_double x =
     (if x = 0 then Finite 0
      else if 2 powi 1024 \<le> nearest_magnitude \<bar>x\<bar> then
        (if 0 < x then PosInfinity else NegInfinity)
      else if nearest_magnitude \<bar>x\<bar> = 0 then (if 0 < x then Finite 0 else NegZero)
      else Finite (if 0 < x then nearest_magnitude \<bar>x\<bar> else - nearest_magnitude \<bar>x\<bar>))"

text \<open>
  The operator \<open>/\<close>: \<open>NaN\<close> from \<open>NaN\<close>, from two infinities and from two zeros; otherwise
  the sign is negative when one operand only is, the quotient is an infinity when the
  dividend is one or the divisor is a zero, a zero when the dividend is one or the
  divisor is an infinity, and else the double of the real quotient.
\<close>

definition divide_number :: "number \<Rightarrow> number \<Rightarrow> number" where
  "divide_number x y =
     (if x = NaN \<or> y = NaN then NaN
      else if (is_infinity x \<and> is_infinity y) \<or> (is_zero x \<and> is_zero y) then NaN
      else if is_infinity x \<or> is_zero y then
        (if negative x \<noteq> negative y then NegInfinity else PosInfinity)
      else if is_zero x \<or> is_infinity y then
        (if negative x \<noteq> negative y then NegZero else Finite 0)
      else to_double (finite_value x / finite_value y))"

text \<open>
  \<open>Math.round\<close>: the nearest integer, a tie going up; \<open>-0\<close> for a negative number that is
  at least \<open>-0.5\<close>; a zero, an infinity and \<open>NaN\<close> are returned as they are.
\<close>

fun Math_round :: "number \<Rightarrow> number" where
  "Math_round (Finite q) =
     (if q < 0 \<and> - 1 / 2 \<le> q then NegZero else Finite (of_int \<lfloor>q + 1 / 2\<rfloor>))"
| "Math_round x = x"

text \<open>
  \<open>Math.max(...xs)\<close>: starts from \<open>-Infinity\<close>, takes every larger argument (\<open>+0\<close> being
  larger than \<open>-0\<close>), and is \<open>NaN\<close> as soon as one argument is.
\<close>

fun less_number :: "number \<Rightarrow> number \<Rightarrow> bool" where
  "less_number NaN y = False"
| "less_number x NaN = False"
| "less_number PosInfinity y = False"
| "less_number x PosInfinity = True"
| "less_number x NegInfinity = False"
| "less_number NegInfinity y = True"
| "less_number x y = (finite_value x < finite_value y)"

fun max_step :: "number \<Rightarrow> number \<Rightarrow> number" where
  "max_step highest x =
     (if highest = NaN \<or> x = NaN then NaN
      else if highest = NegZero \<and> x = Finite 0 then Finite 0
      else if less_number highest x then x else highest)"

definition Math_max :: "number list \<Rightarrow> number" where
  "Math_max xs = foldl max_step NegInfinity xs"

text \<open>\<open>Array.prototype.join\<close> on strings.\<close>

fun join :: "string list \<Rightarrow> string \<Rightarrow> string" where
  "join [] sep = []"
| "join [x] sep = x"
| "join (x # y # ys) sep = x @ sep @ join (y # ys) sep"

text \<open>
  \<open>s.replace('.', '')\<close>: a string pattern replaces its first occurrence only.
\<close>

fun replace_dot :: "string \<Rightarrow> string" where
  "replace_dot [] = []"
| "replace_dot (c # cs) = (if c = CHR ''.'' then cs else c # replace_dot cs)"

text \<open>
  A \<open>Set\<close> of strings keeps its members in insertion order; it is modelled by the list
  of its members in that order. \<open>add\<close> leaves a set that has the member unchanged.
\<close>

definition Set_add :: "'a list \<Rightarrow> 'a \<Rightarrow> 'a list" where
  "Set_add s x = (if x \<in> set s then s else s @ [x])"

definition new_Set :: "'a list \<Rightarrow> 'a list" where
  "new_Set xs = foldl Set_add [] xs"

section \<open>Errors and promises\<close>

text \<open>
  Every failure of the code is a thrown \<open>Error\<close> carrying a message; what a
  collaborator throws is an error of the same type.
\<close>

datatype error = Error string

text \<open>
  A settled promise: the time at which it settles, counted from the moment the
  concurrent calls were started, and its outcome (\<open>Inl\<close> a rejection). The time
  only matters to \<open>Promise.all\<close>, which rejects with the rejection that settles first.
\<close>

type_synonym 'a promise = "nat \<times> (error + 'a)"

text \<open>
  An \<open>async\<close> function that awaits one promise and returns a function of its value.
\<close>

definition await_then :: "'a promise \<Rightarrow> ('a \<Rightarrow> 'b) \<Rightarrow> 'b promise" where
  "await_then p f = (fst p, case snd p of Inl e \<Rightarrow> Inl e | Inr v \<Rightarrow> Inr (f v))"

text \<open>
  \<open>Promise.all\<close>: fulfilled with the values in the order of the promises, whatever
  the order in which they settle, once the last one has settled; rejected with the
  earliest rejection (the lower index wins a tie).
\<close>

fun Promise_all :: "'a promise list \<Rightarrow> 'a list promise" where
  "Promise_all [] = (0, Inr [])"
| "Promise_all ((t, r) # ps) =
     (case (r, Promise_all ps) of
        (Inr v, (t', Inr vs)) \<Rightarrow> (max t t', Inr (v # vs))
      | (Inr v, (t', Inl e')) \<Rightarrow> (t', Inl e')
      | (Inl e, (t', Inr vs)) \<Rightarrow> (t, Inl e)
      | (Inl e, (t', Inl e')) \<Rightarrow> (if t \<le> t' then (t, Inl e) else (t', Inl e')))"

section \<open>The data of get-picture.ts\<close>

text \<open>
  \<open>ImageMetadata\<close> (declared in vite-plugin-astro-image): the path of an imported
  image with its dimensions.
\<close>

record ImageMetadata =
  meta_src :: string
  meta_width :: number
  meta_height :: number
  meta_format :: string

text \<open>
  The three shapes of \<open>src\<close>: a path or URL, the metadata of an imported image, or
  the promise of a module whose default export is that metadata (which may reject).
\<close>

datatype src_value =
    SrcString string
  | SrcMetadata ImageMetadata
  | SrcPromise "error + ImageMetadata"

text \<open>\<open>TransformOptions['aspectRatio']\<close>: a number or a string such as \<open>16:9\<close>.\<close>

datatype aspect_ratio = RatioNumber number | RatioString string

text \<open>
  \<open>GetPictureParams\<close>. The declared type of \<open>widths\<close> is \<open>number[]\<close>; the guard of
  line 52 is for the callers that are not type-checked, and \<open>None\<close> stands for what it
  rejects: a value that is missing or is not an array. A format is a string: the cast
  of line 36 lets any extension through.
\<close>

record GetPictureParams =
  src :: src_value
  widths :: "number list option"
  formats :: "string list"
  aspectRatio :: "aspect_ratio option"
  fit :: "string option"
  background :: "string option"
  position :: "string option"

text \<open>
  The argument of \<open>getImage\<close>: the fields that \<open>getPicture\<close> fills in (a field that is
  left out, or is \<open>undefined\<close>, is \<open>None\<close>).
\<close>

record TransformOptions =
  t_src :: src_value
  t_format :: "string option"
  t_width :: number
  t_height :: "number option"
  t_aspectRatio :: "number option"
  t_fit :: "string option"
  t_position :: "string option"
  t_background :: "string option"

text \<open>The attributes that \<open>getImage\<close> returns: the URL and the other attributes.\<close>

record ImgAttributes =
  img_src :: string
  img_other :: "(string \<times> string) list"

record Source =
  type_attr :: string
  srcset :: string

record GetPictureResult =
  sources :: "Source list"
  image :: ImgAttributes

text \<open>
  What \<open>getPicture\<close> imports and calls: \<open>extname\<close> of node:path, \<open>mime.getType\<close>,
  \<open>parseAspectRatio\<close> and \<open>getImage\<close> of this package (neither is among the sources
  at hand), and the conversion of a number to a string that a template literal
  applies. They are parameters of the model.
\<close>

record Env =
  extname :: "string \<Rightarrow> string"
  mime_getType :: "string \<Rightarrow> string option"
  parseAspectRatio :: "aspect_ratio option \<Rightarrow> number option"
  getImage :: "TransformOptions \<Rightarrow> ImgAttributes promise"
  Number_toString :: "number \<Rightarrow> string"

section \<open>get-picture.ts\<close>

text \<open>\<open>a || b\<close> where \<open>a\<close> is a number or \<open>undefined\<close>.\<close>

fun or_else :: "number option \<Rightarrow> number \<Rightarrow> number option" where
  "or_else None b = Some b"
| "or_else (Some a) b = (if truthy a then Some a else Some b)"

definition resolveAspectRatio :: "Env \<Rightarrow> GetPictureParams \<Rightarrow> error + number option" where
  "resolveAspectRatio env params =
     (case src params of
        SrcString s \<Rightarrow> Inr (parseAspectRatio env (aspectRatio params))
      | SrcMetadata metadata \<Rightarrow>
          Inr (or_else (parseAspectRatio env (aspectRatio params))
                 (divide_number (meta_width metadata) (meta_height metadata)))
      | SrcPromise (Inl e) \<Rightarrow> Inl e
      | SrcPromise (Inr metadata) \<Rightarrow>
          Inr (or_else (parseAspectRatio env (aspectRatio params))
                 (divide_number (meta_width metadata) (meta_height metadata))))"

definition resolveFormats :: "Env \<Rightarrow> GetPictureParams \<Rightarrow> error + string list" where
  "resolveFormats env params =
     (let unique = new_Set (formats params) in
      case src params of
        SrcString s \<Rightarrow>
          Inr (filter (\<lambda>f. f \<noteq> []) (Set_add unique (replace_dot (extname env s))))
      | SrcMetadata metadata \<Rightarrow>
          Inr (filter (\<lambda>f. f \<noteq> [])
                 (Set_add unique (replace_dot (extname env (meta_src metadata)))))
      | SrcPromise (Inl e) \<Rightarrow> Inl e
      | SrcPromise (Inr metadata) \<Rightarrow>
          Inr (filter (\<lambda>f. f \<noteq> [])
                 (Set_add unique (replace_dot (extname env (meta_src metadata))))))"

text \<open>
  \<open>getSource\<close>, the closure of lines 62 to 82, with the variables it captures as
  arguments. It returns its promise and the calls of \<open>getImage\<close> it has started, in
  the order in which they start: \<open>widths.map\<close> starts them all before any is awaited.
\<close>

definition getSource ::
  "Env \<Rightarrow> GetPictureParams \<Rightarrow> number list \<Rightarrow> number \<Rightarrow> string
     \<Rightarrow> Source promise \<times> TransformOptions list" where
  "getSource env params ws ratio format =
     (let calls = map (\<lambda>width.
            (let options = \<lparr>t_src = src params, t_format = Some format, t_width = width,
                   t_height = Some (Math_round (divide_number width ratio)),
                   t_aspectRatio = None, t_fit = fit params,
                   t_position = position params, t_background = background params\<rparr>
             in (await_then (getImage env options)
                   (\<lambda>img. img_src img @ '' '' @ Number_toString env width @ ''w''),
                 options))) ws;
          imgs = Promise_all (map fst calls)
      in (await_then imgs (\<lambda>imgs.
            \<lparr>type_attr = (case mime_getType env format of
                            None \<Rightarrow> format
                          | Some t \<Rightarrow> if t = [] then format else t),
             srcset = join imgs '',''\<rparr>),
          map snd calls))"

text \<open>
  \<open>getPicture\<close>: its outcome, and the calls of \<open>getImage\<close> it has started, in order.
  The call for the fallback image is awaited before the others start; the calls for
  the sources all start, whichever of them fail.
\<close>

definition getPicture ::
  "Env \<Rightarrow> GetPictureParams \<Rightarrow> (error + GetPictureResult) \<times> TransformOptions list" where
  "getPicture env params =
     (if src params = SrcString [] then
        (Inl (Error ''[@astrojs/image] `src` is required''), [])
      else case widths params of
        None \<Rightarrow> (Inl (Error ''[@astrojs/image] at least one `width` is required''), [])
      | Some ws \<Rightarrow>
     (case resolveAspectRatio env params of
        Inl e \<Rightarrow> (Inl e, [])
      | Inr None \<Rightarrow> (Inl (Error ''`aspectRatio` must be provided for remote images''), [])
      | Inr (Some ratio) \<Rightarrow>
     (if \<not> truthy ratio then
        (Inl (Error ''`aspectRatio` must be provided for remote images''), [])
      else case resolveFormats env params of
        Inl e \<Rightarrow> (Inl e, [])
      | Inr allFormats \<Rightarrow>
     (let options = \<lparr>t_src = src params,
            t_format = (if allFormats = [] then None else Some (last allFormats)),
            t_width = Math_max ws, t_height = None, t_aspectRatio = Some ratio,
            t_fit = fit params, t_position = position params,
            t_background = background params\<rparr>
      in case snd (getImage env options) of
        Inl e \<Rightarrow> (Inl e, [options])
      | Inr img \<Rightarrow>
     (let started = map (getSource env params ws ratio) allFormats
      in (case snd (Promise_all (map fst started)) of
            Inl e \<Rightarrow> Inl e
          | Inr srcs \<Rightarrow> Inr \<lparr>sources = srcs, image = img\<rparr>,
          options # concat (map snd started)))))))"

section \<open>The requests of getPicture\<close>

text \<open>
  The argument of \<open>getImage\<close> for one entry of a \<open>srcset\<close> (the object of lines 65 to
  73) and for the fallback image (the object of lines 87 to 95), as the statements
  below name them.
\<close>

abbreviation srcset_request ::
  "GetPictureParams \<Rightarrow> number \<Rightarrow> string \<Rightarrow> number \<Rightarrow> TransformOptions" where
  "srcset_request params ratio format width \<equiv>
     \<lparr>t_src = src params, t_format = Some format, t_width = width,
      t_height = Some (Math_round (divide_number width ratio)),
      t_aspectRatio = None, t_fit = fit params,
      t_position = position params, t_background = background params\<rparr>"

abbreviation fallback_request ::
  "GetPictureParams \<Rightarrow> number \<Rightarrow> string list \<Rightarrow> number list \<Rightarrow> TransformOptions" where
  "fallback_request params ratio fs ws \<equiv>
     \<lparr>t_src = src params, t_format = (if fs = [] then None else Some (last fs)),
      t_width = Math_max ws, t_height = None, t_aspectRatio = Some ratio,
      t_fit = fit params, t_position = position params,
      t_background = background params\<rparr>"

section \<open>Notions of the specification\<close>

text \<open>
  A list without its repetitions, every member at the place where it is first seen
  (\<open>remdups\<close> keeps the last occurrences, hence the reversals).
\<close>

definition first_seen :: "'a list \<Rightarrow> 'a list" where
  "first_seen xs = rev (remdups (rev xs))"

text \<open>
  The doubles among the reals: a significand of 53 bits at most, scaled by a power of
  two from \<open>2 ^ -1074\<close> to \<open>2 ^ 971\<close>.
\<close>

definition is_double :: "real \<Rightarrow> bool" where
  "is_double d \<longleftrightarrow>
     (\<exists>m e. \<bar>m\<bar> < (2 :: int) ^ 53 \<and> - 1074 \<le> e \<and> e \<le> 971 \<and> d = of_int m * 2 powi e)"

text \<open>
  The path whose extension gives the native format: the path of the metadata when the
  source is a record (or the promise of one), else the string itself.
\<close>

fun source_path :: "src_value \<Rightarrow> error + string" where
  "source_path (SrcString s) = Inr s"
| "source_path (SrcMetadata metadata) = Inr (meta_src metadata)"
| "source_path (SrcPromise (Inl e)) = Inl e"
| "source_path (SrcPromise (Inr metadata)) = Inr (meta_src metadata)"

section \<open>Collaborators for the examples\<close>

text \<open>
  \<open>extname\<close> of node:path on a POSIX system: the last component of the path, trailing
  slashes dropped, from its last dot on; empty when there is no dot, when the only
  dot comes first, and for the component \<open>..\<close>.
\<close>

definition posix_extname :: "string \<Rightarrow> string" where
  "posix_extname path =
     (let trimmed = rev (dropWhile (\<lambda>c. c = CHR ''/'') (rev path));
          base = rev (takeWhile (\<lambda>c. c \<noteq> CHR ''/'') (rev trimmed));
          ext = rev (takeWhile (\<lambda>c. c \<noteq> CHR ''.'') (rev base));
          name = take (length base - length ext - 1) base
      in if CHR ''.'' \<notin> set base \<or> name = [] \<or> base = ''..'' then []
         else CHR ''.'' # ext)"

text \<open>The types that \<open>mime.getType\<close> knows, cut down to the image formats.\<close>

definition image_getType :: "string \<Rightarrow> string option" where
  "image_getType f =
     (if f = ''jpg'' \<or> f = ''jpeg'' then Some ''image/jpeg''
      else if f = ''png'' then Some ''image/png''
      else if f = ''webp'' then Some ''image/webp''
      else if f = ''avif'' then Some ''image/avif''
      else if f = ''gif'' then Some ''image/gif''
      else None)"

text \<open>
  The decimal numeral of a natural number, and with it the string of a number that
  is whole (as the widths of the examples are) or special; of any other number the
  stand-in prints the whole part only.
\<close>

fun decimal :: "nat \<Rightarrow> string" where
  "decimal n =
     (if n < 10 then [''0123456789'' ! n]
      else decimal (n div 10) @ [''0123456789'' ! (n mod 10)])"

declare decimal.simps [simp del]

fun whole_toString :: "number \<Rightarrow> string" where
  "whole_toString (Finite x) =
     (if x < 0 then CHR ''-'' # decimal (nat \<lfloor>- x\<rfloor>) else decimal (nat \<lfloor>x\<rfloor>))"
| "whole_toString NegZero = ''0''"
| "whole_toString PosInfinity = ''Infinity''"
| "whole_toString NegInfinity = ''-Infinity''"
| "whole_toString NaN = ''NaN''"

text \<open>
  Modelled from the spec: \<open>parseAspectRatio\<close> of loaders/index.js, which is not among
  the sources at hand. An override is used when one is given, a number as it is and a
  string \<open>W:H\<close> of two decimal numerals as their quotient; there is no ratio without an
  override, nor with one that cannot be used.
\<close>

definition read_decimal :: "string \<Rightarrow> number" where
  "read_decimal s =
     (if s \<noteq> [] \<and> list_all (\<lambda>c. c \<in> set ''0123456789'') s
      then to_double (of_nat (foldl (\<lambda>n c. 10 * n + (of_char c - 48)) 0 s))
      else NaN)"

fun plain_parseAspectRatio :: "aspect_ratio option \<Rightarrow> number option" where
  "plain_parseAspectRatio None = None"
| "plain_parseAspectRatio (Some (RatioNumber n)) = (if truthy n then Some n else None)"
| "plain_parseAspectRatio (Some (RatioString s)) =
     (let w = takeWhile (\<lambda>c. c \<noteq> CHR '':'') s;
          h = drop (length w + 1) s;
          ratio = divide_number (read_decimal w) (read_decimal h)
      in if truthy ratio then Some ratio else None)"

text \<open>
  Modelled from the spec: \<open>getImage\<close> of lib/get-image.js, which is not among the
  sources at hand, as the transformer of the specification's example: the URL is
  \<open>format/width\<close>, and the wider the image the sooner the call settles.
\<close>

definition echo_getImage :: "TransformOptions \<Rightarrow> ImgAttributes promise" where
  "echo_getImage options =
     (case t_width options of Finite x \<Rightarrow> nat \<lfloor>4000 - x\<rfloor> | _ \<Rightarrow> 0,
      Inr \<lparr>img_src = (case t_format options of None \<Rightarrow> ''undefined'' | Some f \<Rightarrow> f)
               @ ''/'' @ whole_toString (t_width options),
           img_other = []\<rparr>)"

definition example_env :: Env where
  "example_env = \<lparr>extname = posix_extname, mime_getType = image_getType,
     parseAspectRatio = plain_parseAspectRatio, getImage = echo_getImage,
     Number_toString = whole_toString\<rparr>"

text \<open>The same, with a transformer that fails on one request.\<close>

definition failing_env :: Env where
  "failing_env = example_env\<lparr>getImage := (\<lambda>options.
     if t_format options = Some ''webp'' \<and> t_width options = Finite 800
     then (1, Inl (Error ''out of memory'')) else echo_getImage options)\<rparr>"

definition example_params :: GetPictureParams where
  "example_params = \<lparr>src = SrcString ''photo.jpg'', widths = Some [Finite 400, Finite 800],
     formats = [''avif'', ''webp''], aspectRatio = Some (RatioNumber (Finite (3 / 2))),
     fit = None, background = None, position = None\<rparr>"

text \<open>An imported image of 2800 by 2500 pixels, with no aspect ratio given.\<close>

definition imported_params :: GetPictureParams where
  "imported_params = \<lparr>src = SrcMetadata \<lparr>meta_src = ''/assets/hero.png'',
       meta_width = Finite 2800, meta_height = Finite 2500, meta_format = ''png''\<rparr>,
     widths = Some [Finite 350, Finite 800], formats = [''webp''], aspectRatio = None,
     fit = None, background = None, position = None\<rparr>"

lemmas double_defs = divide_number_def to_double_def nearest_magnitude_def ulp_def
  exponent_def round_even_def ilog2.simps

lemmas example_defs = example_env_def example_params_def failing_env_def
  posix_extname_def image_getType_def echo_getImage_def resolveAspectRatio_def
  resolveFormats_def new_Set_def Set_add_def Math_max_def decimal.simps double_defs

section \<open>The double of a real\<close>

lemma ilog2_bounds: "0 < n \<Longrightarrow> 2 ^ ilog2 n \<le> n \<and> n < 2 * 2 ^ ilog2 n"
proof (induction n rule: ilog2.induct)
  case (1 n)
  show ?case
  proof (cases "n < 2")
    case True
    with "1.prems" show ?thesis by (simp add: ilog2.simps [of n])
  next
    case False
    then have "0 < n div 2" by simp
    with "1.IH" False have "2 ^ ilog2 (n div 2) \<le> n div 2" "n div 2 < 2 * 2 ^ ilog2 (n div 2)"
      by simp_all
    then show ?thesis using False by (simp add: ilog2.simps [of n]) linarith
  qed
qed

lemma exponent_bounds:
  assumes "0 < x"
  shows "2 powi exponent x \<le> x" and "x < 2 powi (exponent x + 1)"
proof -
  have "2 powi exponent x \<le> x \<and> x < 2 powi (exponent x + 1)"
  proof (cases "1 \<le> x")
    case True
    define n where "n = \<lfloor>x\<rfloor>"
    define k where "k = ilog2 n"
    have n: "0 < n" "real_of_int n \<le> x" "x < real_of_int n + 1"
      using True unfolding n_def by linarith+
    from ilog2_bounds [OF n(1)] have "2 ^ k \<le> n" "n + 1 \<le> 2 * 2 ^ k"
      by (simp_all add: k_def)
    then have "real_of_int (2 ^ k) \<le> real_of_int n" "real_of_int (n + 1) \<le> real_of_int (2 * 2 ^ k)"
      by (simp_all only: of_int_le_iff)
    then have a: "(2::real) ^ k \<le> real_of_int n" and b: "real_of_int n + 1 \<le> 2 * 2 ^ k"
      by simp_all
    have "exponent x = int k"
      using True by (simp add: exponent_def n_def k_def)
    then have "(2::real) powi exponent x = 2 ^ k" "(2::real) powi (exponent x + 1) = 2 * 2 ^ k"
      by (simp_all add: power_int_add)
    then show ?thesis using a b n by linarith
  next
    case False
    define c where "c = \<lceil>1 / x\<rceil>"
    define n where "n = c - 1"
    define k where "k = ilog2 n"
    have x1: "1 < 1 / x" using False assms by simp
    then have c2: "2 \<le> c" unfolding c_def by linarith
    have c: "real_of_int c - 1 < 1 / x" "1 / x \<le> real_of_int c"
      unfolding c_def by linarith+
    have n: "0 < n" using c2 by (simp add: n_def)
    from ilog2_bounds [OF n] have "2 ^ k \<le> c - 1" "c \<le> 2 * 2 ^ k"
      by (simp_all add: k_def n_def)
    then have "real_of_int (2 ^ k) \<le> real_of_int (c - 1)" "real_of_int c \<le> real_of_int (2 * 2 ^ k)"
      by (simp_all only: of_int_le_iff)
    then have "(2::real) ^ k \<le> real_of_int c - 1" "real_of_int c \<le> 2 * 2 ^ k"
      by simp_all
    with c have lo: "(2::real) ^ k < 1 / x" and hi: "1 / x \<le> 2 * 2 ^ k" by linarith+
    have e: "exponent x = - int (Suc k)"
      using False by (simp add: exponent_def k_def n_def c_def)
    have p: "(0::real) < 2 ^ k" by simp
    from lo assms p have "x < 1 / 2 ^ k" by (simp add: field_simps)
    moreover from hi assms p have "1 / (2 * 2 ^ k) \<le> x" by (simp add: field_simps)
    moreover have "(2::real) powi (- int (Suc k)) = 1 / (2 * 2 ^ k)"
    proof -
      have "(2::real) powi (- int (Suc k)) = inverse (2 powi int (Suc k))"
        by (rule power_int_minus)
      then show ?thesis by (simp add: inverse_eq_divide power_int_add)
    qed
    moreover have "(2::real) powi (- int (Suc k) + 1) = 1 / 2 ^ k"
    proof -
      have "- int (Suc k) + 1 = - int k" by simp
      moreover have "(2::real) powi (- int k) = inverse (2 powi int k)"
        by (rule power_int_minus)
      ultimately show ?thesis by (simp add: inverse_eq_divide power_int_add)
    qed
    ultimately show ?thesis using e by simp
  qed
  then show "2 powi exponent x \<le> x" and "x < 2 powi (exponent x + 1)" by simp_all
qed

lemma round_even_floor: "round_even x = \<lfloor>x\<rfloor> \<or> round_even x = \<lfloor>x\<rfloor> + 1"
  by (simp add: round_even_def)

lemma round_even_cases:
  obtains "round_even x = \<lfloor>x\<rfloor>" and "x - of_int \<lfloor>x\<rfloor> \<le> 1 / 2"
  | "round_even x = \<lfloor>x\<rfloor> + 1" and "1 / 2 \<le> x - of_int \<lfloor>x\<rfloor>"
  unfolding round_even_def by (cases "x - of_int \<lfloor>x\<rfloor> < 1 / 2"; cases "1 / 2 < x - of_int \<lfloor>x\<rfloor>"; cases "even \<lfloor>x\<rfloor>") auto

lemma round_even_nearest: "\<bar>of_int (round_even x) - x\<bar> \<le> \<bar>of_int n - x\<bar>"
proof -
  define f where "f = real_of_int \<lfloor>x\<rfloor>"
  define r where "r = real_of_int (round_even x)"
  define k where "k = real_of_int n"
  have fl: "f \<le> x" "x < f + 1" unfolding f_def by linarith+
  have n: "k \<le> f \<or> f + 1 \<le> k"
  proof (cases "n \<le> \<lfloor>x\<rfloor>")
    case True
    then show ?thesis by (simp add: k_def f_def)
  next
    case False
    then have "\<lfloor>x\<rfloor> + 1 \<le> n" by simp
    then have "real_of_int (\<lfloor>x\<rfloor> + 1) \<le> of_int n" by (simp only: of_int_le_iff)
    then show ?thesis by (simp add: k_def f_def)
  qed
  have "(r = f \<and> x - f \<le> 1 / 2) \<or> (r = f + 1 \<and> 1 / 2 \<le> x - f)"
    by (cases x rule: round_even_cases) (simp_all add: r_def f_def)
  with fl n have "\<bar>r - x\<bar> \<le> \<bar>k - x\<bar>" by (auto simp: abs_le_iff abs_if)
  then show ?thesis by (simp add: r_def k_def)
qed

lemma round_even_half: "\<bar>of_int (round_even x) - x\<bar> \<le> 1 / 2"
proof -
  define f where "f = real_of_int \<lfloor>x\<rfloor>"
  define r where "r = real_of_int (round_even x)"
  have fl: "f \<le> x" "x < f + 1" unfolding f_def by linarith+
  have "(r = f \<and> x - f \<le> 1 / 2) \<or> (r = f + 1 \<and> 1 / 2 \<le> x - f)"
    by (cases x rule: round_even_cases) (simp_all add: r_def f_def)
  with fl have "\<bar>r - x\<bar> \<le> 1 / 2" by (auto simp: abs_le_iff)
  then show ?thesis by (simp add: r_def)
qed


lemma pow2_add: "(2::real) powi (a + b) = 2 powi a * 2 powi b"
  by (simp add: power_int_add)

lemma pow2_mono: "a \<le> b \<Longrightarrow> (2::real) powi a \<le> 2 powi b"
  by (simp add: power_int_increasing)

lemma int_ge_of_real_gt:
  fixes m k :: int
  assumes "real_of_int k - 1 / 2 \<le> of_int m"
  shows "k \<le> m"
proof -
  have "real_of_int k - 1 < real_of_int m" using assms by linarith
  then have "real_of_int (k - 1) < real_of_int m" by simp
  then have "k - 1 < m" by (simp only: of_int_less_iff)
  then show ?thesis by simp
qed

lemma nearest_magnitude_facts:
  assumes "0 < x"
  defines "e \<equiv> max (exponent x) (- 1022)"
  defines "u \<equiv> (2::real) powi (e - 52)"
  defines "m \<equiv> round_even (x / u)"
  shows "nearest_magnitude x = of_int m * u"
    and "0 \<le> m" and "m \<le> 2 ^ 53"
    and "x < 2 ^ 53 * u"
    and "- 1022 < e \<Longrightarrow> 2 ^ 52 * u \<le> x"
    and "- 1022 < e \<Longrightarrow> 2 ^ 52 \<le> m"
    and "\<bar>of_int m * u - x\<bar> \<le> u / 2"
    and "\<bar>of_int m * u - x\<bar> \<le> \<bar>of_int n * u - x\<bar>"
proof -
  have u: "0 < u" unfolding u_def by simp
  show "nearest_magnitude x = of_int m * u"
    by (simp add: nearest_magnitude_def ulp_def m_def u_def e_def)
  have u53: "2 ^ 53 * u = 2 powi (e + 1)"
  proof -
    have "(2::real) powi (e + 1) = 2 powi (53 + (e - 52))"
      by (rule arg_cong [where f = "\<lambda>k. 2 powi k"]) simp
    also have "\<dots> = 2 powi 53 * 2 powi (e - 52)" by (rule pow2_add)
    finally show ?thesis by (simp add: u_def)
  qed
  have u52: "2 ^ 52 * u = 2 powi e"
  proof -
    have "(2::real) powi e = 2 powi (52 + (e - 52))"
      by (rule arg_cong [where f = "\<lambda>k. 2 powi k"]) simp
    also have "\<dots> = 2 powi 52 * 2 powi (e - 52)" by (rule pow2_add)
    finally show ?thesis by (simp add: u_def)
  qed
  have "x < 2 powi (exponent x + 1)" by (rule exponent_bounds [OF assms(1)])
  also have "\<dots> \<le> 2 powi (e + 1)" by (rule pow2_mono) (simp add: e_def)
  finally show hi: "x < 2 ^ 53 * u" by (simp only: u53)
  show lo: "2 ^ 52 * u \<le> x" if "- 1022 < e"
  proof -
    from that have "e = exponent x" by (simp add: e_def max_def split: if_splits)
    then show ?thesis using exponent_bounds(1) [OF assms(1)] by (simp only: u52)
  qed
  have z: "0 < x / u" "x / u < 2 ^ 53" using assms(1) u hi by (simp_all add: field_simps)
  have half: "\<bar>of_int m - x / u\<bar> \<le> 1 / 2" unfolding m_def by (rule round_even_half)
  have "0 \<le> \<lfloor>x / u\<rfloor>" using z(1) by simp
  moreover have "\<lfloor>x / u\<rfloor> < 2 ^ 53"
  proof -
    have "real_of_int \<lfloor>x / u\<rfloor> \<le> x / u" by linarith
    with z(2) have "real_of_int \<lfloor>x / u\<rfloor> < real_of_int (2 ^ 53)" by simp
    then show ?thesis by (simp only: of_int_less_iff)
  qed
  moreover have "m = \<lfloor>x / u\<rfloor> \<or> m = \<lfloor>x / u\<rfloor> + 1" unfolding m_def by (rule round_even_floor)
  ultimately show "0 \<le> m" and "m \<le> 2 ^ 53" by auto
  show "2 ^ 52 \<le> m" if "- 1022 < e"
  proof -
    from lo [OF that] u have "2 ^ 52 \<le> x / u" by (simp add: field_simps)
    moreover from half have "x / u - 1 / 2 \<le> of_int m" by linarith
    moreover have "real_of_int (2 ^ 52) = 2 ^ 52" by simp
    ultimately have "real_of_int (2 ^ 52) - 1 / 2 \<le> of_int m" by linarith
    then show ?thesis by (rule int_ge_of_real_gt)
  qed
  have scale: "\<bar>of_int k * u - x\<bar> = \<bar>of_int k - x / u\<bar> * u" for k :: int
  proof -
    have "of_int k * u - x = (of_int k - x / u) * u" using u by (simp add: field_simps)
    then show ?thesis using u by (simp add: abs_mult)
  qed
  have "\<bar>of_int m - x / u\<bar> * u \<le> (1 / 2) * u"
    using half u by (intro mult_right_mono) simp_all
  then show "\<bar>of_int m * u - x\<bar> \<le> u / 2"
    by (simp add: scale)
  have "\<bar>of_int m - x / u\<bar> \<le> \<bar>of_int n - x / u\<bar>" unfolding m_def by (rule round_even_nearest)
  then show "\<bar>of_int m * u - x\<bar> \<le> \<bar>of_int n * u - x\<bar>"
    using u by (simp add: scale)
qed


lemma is_double_minus: "is_double d \<Longrightarrow> is_double (- d)"
proof -
  assume "is_double d"
  then obtain m e where "\<bar>m\<bar> < (2::int) ^ 53" "- 1074 \<le> e" "e \<le> 971" "d = of_int m * 2 powi e"
    unfolding is_double_def by blast
  then have "\<bar>- m\<bar> < (2::int) ^ 53 \<and> - 1074 \<le> e \<and> e \<le> 971 \<and> - d = of_int (- m) * 2 powi e"
    by simp
  then show ?thesis unfolding is_double_def by blast
qed

lemma is_double_zero: "is_double 0"
  unfolding is_double_def by (rule exI [of _ 0], rule exI [of _ 0]) simp

lemma nearest_magnitude_is_double:
  assumes "0 < x" and "nearest_magnitude x < 2 powi 1024"
  shows "is_double (nearest_magnitude x)"
proof -
  define e where "e = max (exponent x) (- 1022)"
  define u where "u = (2::real) powi (e - 52)"
  define m where "m = round_even (x / u)"
  note f = nearest_magnitude_facts [OF assms(1), folded e_def, folded u_def, folded m_def]
  have u: "0 < u" unfolding u_def by simp
  have e_lo: "- 1022 \<le> e" by (simp add: e_def)
  have u52: "2 ^ 52 * u = 2 powi e"
  proof -
    have "(2::real) powi e = 2 powi (52 + (e - 52))"
      by (rule arg_cong [where f = "\<lambda>k. 2 powi k"]) simp
    also have "\<dots> = 2 powi 52 * 2 powi (e - 52)" by (rule pow2_add)
    finally show ?thesis by (simp add: u_def)
  qed
  have y: "of_int m * u < 2 powi 1024" using assms(2) by (simp only: f(1))
  have e_hi: "e \<le> 1023"
  proof (rule ccontr)
    assume "\<not> e \<le> 1023"
    then have big: "1024 \<le> e" by simp
    then have "- 1022 < e" by simp
    from f(6) [OF this] have "real_of_int (2 ^ 52) \<le> of_int m" by (simp only: of_int_le_iff)
    then have "2 ^ 52 * u \<le> of_int m * u" using u by (intro mult_right_mono) simp_all
    moreover have "(2::real) powi 1024 \<le> 2 powi e" using big by (rule pow2_mono)
    ultimately show False using y unfolding u52 by linarith
  qed
  show ?thesis
  proof (cases "m < 2 ^ 53")
    case True
    with f(2) have "\<bar>m\<bar> < 2 ^ 53" by simp
    moreover have "- 1074 \<le> e - 52" "e - 52 \<le> 971" using e_lo e_hi by simp_all
    moreover have "nearest_magnitude x = of_int m * 2 powi (e - 52)" by (simp only: f(1) u_def)
    ultimately show ?thesis unfolding is_double_def by blast
  next
    case False
    with f(3) have m: "m = 2 ^ 53" by simp
    have "(2::real) powi (e + 1) = 2 powi (53 + (e - 52))"
      by (rule arg_cong [where f = "\<lambda>k. 2 powi k"]) simp
    also have "\<dots> = 2 powi 53 * 2 powi (e - 52)" by (rule pow2_add)
    finally have y1: "of_int m * u = 2 powi (e + 1)" by (simp add: u_def m)
    have "e + 1 < 1024"
    proof (rule ccontr)
      assume "\<not> e + 1 < 1024"
      then have "(2::real) powi 1024 \<le> 2 powi (e + 1)" by (intro pow2_mono) simp
      with y y1 show False by simp
    qed
    have "(2::real) powi (e + 1) = 2 powi (52 + (e - 51))"
      by (rule arg_cong [where f = "\<lambda>k. 2 powi k"]) simp
    also have "\<dots> = 2 powi 52 * 2 powi (e - 51)" by (rule pow2_add)
    finally have "nearest_magnitude x = of_int (2 ^ 52) * 2 powi (e - 51)"
      by (simp add: f(1) y1)
    moreover have "\<bar>(2::int) ^ 52\<bar> < 2 ^ 53" by simp
    moreover have "- 1074 \<le> e - 51" "e - 51 \<le> 971" using e_lo \<open>e + 1 < 1024\<close> by simp_all
    ultimately show ?thesis unfolding is_double_def by blast
  qed
qed

lemma nearest_magnitude_nearest:
  assumes "0 < x" and "is_double d"
  shows "\<bar>nearest_magnitude x - x\<bar> \<le> \<bar>d - x\<bar>"
proof -
  define e where "e = max (exponent x) (- 1022)"
  define u where "u = (2::real) powi (e - 52)"
  define m where "m = round_even (x / u)"
  note f = nearest_magnitude_facts [OF assms(1), folded e_def, folded u_def, folded m_def]
  have u: "0 < u" unfolding u_def by simp
  from assms(2) obtain k j where k: "\<bar>k\<bar> < (2::int) ^ 53" and j: "- 1074 \<le> j" "j \<le> 971"
    and d: "d = of_int k * 2 powi j"
    unfolding is_double_def by blast
  show ?thesis
  proof (cases "e - 52 \<le> j")
    case True
    have "(2::real) powi j = 2 powi ((j - (e - 52)) + (e - 52))"
      by (rule arg_cong [where f = "\<lambda>k. 2 powi k"]) simp
    also have "\<dots> = 2 powi (j - (e - 52)) * u" unfolding u_def by (rule pow2_add)
    also have "(2::real) powi (j - (e - 52)) = of_int (2 ^ nat (j - (e - 52)))"
      using True by (simp add: power_int_def)
    finally have "d = of_int (k * 2 ^ nat (j - (e - 52))) * u"
      by (simp add: d)
    with f(8) [of "k * 2 ^ nat (j - (e - 52))"] show ?thesis by (simp only: f(1))
  next
    case False
    then have je: "j \<le> e - 53" by simp
    with j(1) have "- 1022 < e" by simp
    from f(5) [OF this] have lo: "2 ^ 52 * u \<le> x" .
    have half: "(2::real) powi (e - 53) = u / 2"
    proof -
      have "u = 2 powi (1 + (e - 53))"
        unfolding u_def by (rule arg_cong [where f = "\<lambda>k. 2 powi k"]) simp
      also have "\<dots> = 2 powi 1 * 2 powi (e - 53)" by (rule pow2_add)
      finally show ?thesis by simp
    qed
    have "\<bar>k\<bar> \<le> 2 ^ 53 - 1" using k by simp
    then have "real_of_int \<bar>k\<bar> \<le> real_of_int (2 ^ 53 - 1)"
      by (simp only: of_int_le_iff)
    then have k': "real_of_int \<bar>k\<bar> \<le> 2 ^ 53 - 1" by simp
    have "\<bar>d\<bar> = real_of_int \<bar>k\<bar> * 2 powi j" by (simp add: d abs_mult)
    also have "\<dots> \<le> (2 ^ 53 - 1) * 2 powi j"
      using k' by (intro mult_right_mono) simp_all
    also have "\<dots> \<le> (2 ^ 53 - 1) * 2 powi (e - 53)"
      using je by (intro mult_left_mono pow2_mono) simp_all
    also have "\<dots> = 2 ^ 52 * u - u / 2" by (simp add: half algebra_simps)
    finally have "\<bar>d\<bar> \<le> x - u / 2" using lo by linarith
    then have "u / 2 \<le> \<bar>d - x\<bar>" by linarith
    with f(7) show ?thesis unfolding f(1) by linarith
  qed
qed


lemma to_double_nearest:
  assumes "to_double x = Finite q"
  shows "is_double q" and "is_double d \<Longrightarrow> \<bar>q - x\<bar> \<le> \<bar>d - x\<bar>"
proof -
  have "is_double q \<and> (is_double d \<longrightarrow> \<bar>q - x\<bar> \<le> \<bar>d - x\<bar>)"
  proof (cases "x = 0")
    case True
    with assms have "q = 0" by (simp add: to_double_def)
    with True show ?thesis by (simp add: is_double_zero)
  next
    case False
    then have pos: "0 < \<bar>x\<bar>" by simp
    from assms False have small: "nearest_magnitude \<bar>x\<bar> < 2 powi 1024"
      by (auto simp: to_double_def split: if_splits)
    note dbl = nearest_magnitude_is_double [OF pos small]
    show ?thesis
    proof (cases "0 < x")
      case True
      with assms False small have q: "q = nearest_magnitude x"
        by (auto simp: to_double_def split: if_splits)
      from True dbl nearest_magnitude_nearest [OF True, of d] show ?thesis
        by (simp add: q)
    next
      case neg: False
      with assms False small have q: "q = - nearest_magnitude \<bar>x\<bar>"
        by (auto simp: to_double_def split: if_splits)
      have "is_double d \<Longrightarrow> \<bar>q - x\<bar> \<le> \<bar>d - x\<bar>"
      proof -
        assume "is_double d"
        then have "is_double (- d)" by (rule is_double_minus)
        from nearest_magnitude_nearest [OF pos this] neg False
        show ?thesis by (simp add: q abs_if split: if_splits)
      qed
      moreover have "is_double q" unfolding q using dbl by (rule is_double_minus)
      ultimately show ?thesis by simp
    qed
  qed
  then show "is_double q" and "is_double d \<Longrightarrow> \<bar>q - x\<bar> \<le> \<bar>d - x\<bar>" by simp_all
qed

lemma round_even_tie: "round_even (of_int n + 1 / 2) = (if even n then n else n + 1)"
proof -
  have "\<lfloor>real_of_int n + 1 / 2\<rfloor> = n" by linarith
  then show ?thesis by (simp add: round_even_def)
qed

lemma divide_number_nearest:
  assumes "divide_number (Finite x) (Finite r) = Finite q"
  shows "is_double q" and "is_double d \<Longrightarrow> \<bar>q - x / r\<bar> \<le> \<bar>d - x / r\<bar>"
proof -
  have "r \<noteq> 0" using assms by (auto simp: divide_number_def split: if_splits)
  show "is_double q"
  proof (cases "x = 0")
    case True
    with assms \<open>r \<noteq> 0\<close> have "q = 0" by (auto simp: divide_number_def split: if_splits)
    then show ?thesis by (simp add: is_double_zero)
  next
    case False
    with assms \<open>r \<noteq> 0\<close> have "to_double (x / r) = Finite q" by (simp add: divide_number_def)
    then show ?thesis by (rule to_double_nearest)
  qed
  show "\<bar>q - x / r\<bar> \<le> \<bar>d - x / r\<bar>" if "is_double d"
  proof (cases "x = 0")
    case True
    with assms \<open>r \<noteq> 0\<close> have "q = 0" by (auto simp: divide_number_def split: if_splits)
    with True show ?thesis by simp
  next
    case False
    with assms \<open>r \<noteq> 0\<close> have "to_double (x / r) = Finite q" by (simp add: divide_number_def)
    from to_double_nearest(2) [OF this that] show ?thesis .
  qed
qed

lemma Math_round_nearest_integer:
  "\<exists>n. real_of_int n \<le> q + 1 / 2 \<and> q + 1 / 2 < real_of_int n + 1
     \<and> Math_round (Finite q) = (if n = 0 \<and> q < 0 then NegZero else Finite (of_int n))"
proof (intro exI [of _ "\<lfloor>q + 1 / 2\<rfloor>"] conjI)
  show "real_of_int \<lfloor>q + 1 / 2\<rfloor> \<le> q + 1 / 2" by linarith
  show "q + 1 / 2 < real_of_int \<lfloor>q + 1 / 2\<rfloor> + 1" by linarith
  have "\<lfloor>q + 1 / 2\<rfloor> = 0 \<longleftrightarrow> - 1 / 2 \<le> q \<and> q < 1 / 2" by (simp add: floor_eq_iff) linarith
  then show "Math_round (Finite q) =
      (if \<lfloor>q + 1 / 2\<rfloor> = 0 \<and> q < 0 then NegZero else Finite (of_int \<lfloor>q + 1 / 2\<rfloor>))"
    by auto
qed

text \<open>
  A tie goes to the even significand, and the double of a real is an infinity from
  \<open>2 ^ 1024 - 2 ^ 970\<close> on, half a step above the largest double.
\<close>

lemma to_double_tie_examples:
  "to_double (1 + 1 / 2 ^ 53) = Finite 1"
  "to_double (1 + 3 / 2 ^ 53) = Finite (1 + 1 / 2 ^ 51)"
  "to_double (- (1 + 3 / 2 ^ 53)) = Finite (- (1 + 1 / 2 ^ 51))"
  by (simp_all add: to_double_def nearest_magnitude_def ulp_def exponent_def round_even_def
      ilog2.simps)

lemma exponent_ge:
  assumes "0 < x" and "2 powi a \<le> x"
  shows "a \<le> exponent x"
proof (rule ccontr)
  assume "\<not> a \<le> exponent x"
  then have "exponent x + 1 \<le> a" by simp
  then have "(2::real) powi (exponent x + 1) \<le> 2 powi a" by (rule pow2_mono)
  with exponent_bounds(2) [OF assms(1)] assms(2) show False by linarith
qed

lemma exponent_less:
  assumes "0 < x" and "x < 2 powi a"
  shows "exponent x < a"
proof (rule ccontr)
  assume "\<not> exponent x < a"
  then have "a \<le> exponent x" by simp
  then have "(2::real) powi a \<le> 2 powi exponent x" by (rule pow2_mono)
  with exponent_bounds(1) [OF assms(1)] assms(2) show False by linarith
qed

lemma nearest_magnitude_overflow:
  assumes "0 < x"
  shows "2 powi 1024 \<le> nearest_magnitude x \<longleftrightarrow> 2 powi 1024 - 2 powi 970 \<le> x"
proof -
  define e where "e = max (exponent x) (- 1022)"
  define u where "u = (2::real) powi (e - 52)"
  define m where "m = round_even (x / u)"
  note f = nearest_magnitude_facts [OF assms(1), folded e_def, folded u_def, folded m_def]
  have u: "0 < u" unfolding u_def by simp
  have u52: "2 ^ 52 * u = 2 powi e"
  proof -
    have "(2::real) powi e = 2 powi (52 + (e - 52))"
      by (rule arg_cong [where f = "\<lambda>k. 2 powi k"]) simp
    also have "\<dots> = 2 powi 52 * 2 powi (e - 52)" by (rule pow2_add)
    finally show ?thesis by (simp add: u_def)
  qed
  have u53: "2 ^ 53 * u = 2 powi (e + 1)"
  proof -
    have "(2::real) powi (e + 1) = 2 powi (53 + (e - 52))"
      by (rule arg_cong [where f = "\<lambda>k. 2 powi k"]) simp
    also have "\<dots> = 2 powi 53 * 2 powi (e - 52)" by (rule pow2_add)
    finally show ?thesis by (simp add: u_def)
  qed
  have half: "(2::real) powi 970 = 2 powi 971 / 2"
  proof -
    have "(2::real) powi 971 = 2 powi (1 + 970)"
      by (rule arg_cong [where f = "\<lambda>k. 2 powi k"]) simp
    also have "\<dots> = 2 powi 1 * 2 powi 970" by (rule pow2_add)
    finally show ?thesis by simp
  qed
  have top: "(2::real) powi 1024 = 2 ^ 53 * 2 powi 971"
  proof -
    have "(2::real) powi 1024 = 2 powi (53 + 971)"
      by (rule arg_cong [where f = "\<lambda>k. 2 powi k"]) simp
    also have "\<dots> = 2 powi 53 * 2 powi 971" by (rule pow2_add)
    finally show ?thesis by simp
  qed
  have mid: "(2::real) powi 1023 \<le> 2 powi 1024 - 2 powi 970"
  proof -
    have "(2::real) powi 1024 = 2 powi (1 + 1023)"
      by (rule arg_cong [where f = "\<lambda>k. 2 powi k"]) simp
    also have "\<dots> = 2 powi 1 * 2 powi 1023" by (rule pow2_add)
    finally have "(2::real) powi 1024 = 2 * 2 powi 1023" by simp
    moreover have "(2::real) powi 970 \<le> 2 powi 1023" by (rule pow2_mono) simp
    ultimately show ?thesis by linarith
  qed
  show ?thesis
  proof
    assume big: "2 powi 1024 - 2 powi 970 \<le> x"
    show "2 powi 1024 \<le> nearest_magnitude x"
    proof (cases "1024 \<le> e")
      case True
      then have "- 1022 < e" by simp
      from f(6) [OF this] have "real_of_int (2 ^ 52) \<le> of_int m" by (simp only: of_int_le_iff)
      then have "2 ^ 52 * u \<le> of_int m * u" using u by (intro mult_right_mono) simp_all
      moreover have "(2::real) powi 1024 \<le> 2 powi e" using True by (rule pow2_mono)
      ultimately show ?thesis unfolding f(1) u52 by linarith
    next
      case False
      from mid big have "2 powi 1023 \<le> x" by linarith
      from exponent_ge [OF assms this] False have e: "e = 1023" by (simp add: e_def)
      then have u971: "u = 2 powi 971" by (simp add: u_def)
      have "(2 ^ 53 - 1 / 2) * u \<le> x" using big by (simp add: u971 top half algebra_simps)
      then have "2 ^ 53 - 1 / 2 \<le> x / u" using u by (simp add: field_simps)
      moreover have "x / u < 2 ^ 53" using f(4) u by (simp add: field_simps)
      moreover have "real_of_int (2 ^ 53 - 1) = 2 ^ 53 - 1" by simp
      ultimately have z: "real_of_int (2 ^ 53 - 1) \<le> x / u" "x / u < real_of_int (2 ^ 53 - 1) + 1"
        "real_of_int (2 ^ 53 - 1) + 1 / 2 \<le> x / u"
        by linarith+
      from z(1,2) have fl: "\<lfloor>x / u\<rfloor> = 2 ^ 53 - 1" by (rule floor_unique)
      have fr: "1 / 2 \<le> x / u - of_int \<lfloor>x / u\<rfloor>" unfolding fl using z(3) by linarith
      have "odd \<lfloor>x / u\<rfloor>" by (simp add: fl)
      with fr have "m = \<lfloor>x / u\<rfloor> + 1" unfolding m_def round_even_def by auto
      then have "m = 2 ^ 53" by (simp add: fl)
      then show ?thesis by (simp add: f(1) u971 top)
    qed
  next
    assume over: "2 powi 1024 \<le> nearest_magnitude x"
    show "2 powi 1024 - 2 powi 970 \<le> x"
    proof (rule ccontr)
      assume "\<not> 2 powi 1024 - 2 powi 970 \<le> x"
      then have small: "x < 2 powi 1024 - 2 powi 970" by simp
      moreover have "(0::real) < 2 powi 970" by simp
      ultimately have "x < 2 powi 1024" by linarith
      from exponent_less [OF assms this] have e_hi: "e \<le> 1023" by (simp add: e_def)
      have "real_of_int m \<le> real_of_int (2 ^ 53)" using f(3) by (simp only: of_int_le_iff)
      then have "of_int m * u \<le> 2 ^ 53 * u" using u by (intro mult_right_mono) simp_all
      then have y_le: "of_int m * u \<le> 2 powi (e + 1)" by (simp only: u53)
      show False
      proof (cases "e \<le> 1022")
        case True
        then have "(2::real) powi (e + 1) \<le> 2 powi 1023" by (intro pow2_mono) simp
        moreover have "(2::real) powi 1023 < 2 powi 1024"
          by (rule power_int_strict_increasing) simp_all
        ultimately show False using over y_le unfolding f(1) by linarith
      next
        case False
        with e_hi have e: "e = 1023" by simp
        then have u971: "u = 2 powi 971" by (simp add: u_def)
        have "x < (2 ^ 53 - 1 / 2) * u" using small by (simp add: u971 top half algebra_simps)
        then have z: "x / u < 2 ^ 53 - 1 / 2" using u by (simp add: field_simps)
        have "\<bar>of_int m - x / u\<bar> \<le> 1 / 2" unfolding m_def by (rule round_even_half)
        with z have "real_of_int m < 2 ^ 53" by linarith
        then have "real_of_int m < real_of_int (2 ^ 53)" by simp
        then have "m < 2 ^ 53" by (simp only: of_int_less_iff)
        then have "m \<le> 2 ^ 53 - 1" by simp
        then have "real_of_int m \<le> real_of_int (2 ^ 53 - 1)" by (simp only: of_int_le_iff)
        then have "real_of_int m \<le> 2 ^ 53 - 1" by simp
        then have "of_int m * u \<le> (2 ^ 53 - 1) * u" using u by (intro mult_right_mono) simp_all
        also have "\<dots> < 2 ^ 53 * u" using u by simp
        finally show False using over by (simp add: f(1) u971 top)
      qed
    qed
  qed
qed


lemma to_double_infinite:
  "to_double x = PosInfinity \<longleftrightarrow> 2 powi 1024 - 2 powi 970 \<le> x"
  "to_double x = NegInfinity \<longleftrightarrow> x \<le> - (2 powi 1024 - 2 powi 970)"
proof -
  have pos: "(0::real) < 2 powi 1024 - 2 powi 970"
  proof -
    have "(2::real) powi 970 < 2 powi 1024" by (rule power_int_strict_increasing) simp_all
    then show ?thesis by simp
  qed
  show "to_double x = PosInfinity \<longleftrightarrow> 2 powi 1024 - 2 powi 970 \<le> x"
  proof (cases "0 < x")
    case True
    with nearest_magnitude_overflow [OF True] show ?thesis by (simp add: to_double_def)
  next
    case False
    with pos have "\<not> 2 powi 1024 - 2 powi 970 \<le> x" by linarith
    with False show ?thesis by (simp add: to_double_def)
  qed
  show "to_double x = NegInfinity \<longleftrightarrow> x \<le> - (2 powi 1024 - 2 powi 970)"
  proof (cases "x < 0")
    case True
    then have "0 < \<bar>x\<bar>" by simp
    from nearest_magnitude_overflow [OF this] True show ?thesis
      by (simp add: to_double_def)
  next
    case False
    with pos have "\<not> x \<le> - (2 powi 1024 - 2 powi 970)" by linarith
    with False show ?thesis by (auto simp: to_double_def)
  qed
qed

text \<open>
  The rounding of the quotient shows in the height: an image of 2800 by 2500 has the
  ratio 1.12, which is no double, and 350 divided by the double next to it is just
  below 312.5; likewise with 35 and the ratio of 14 to 3.
\<close>

lemma Math_round_divide_examples:
  "Math_round (divide_number (Finite 350) (divide_number (Finite 2800) (Finite 2500))) = Finite 312"
  "Math_round (divide_number (Finite 35) (divide_number (Finite 14) (Finite 3))) = Finite 7"
  "Math_round (divide_number (Finite 401) (Finite 2)) = Finite 201"
  "Math_round (divide_number (Finite (- 401)) (Finite 2)) = Finite (- 200)"
  "Math_round (divide_number (Finite (- 1)) (Finite 4)) = NegZero"
  "Math_round (divide_number (Finite 1) (Finite 0)) = PosInfinity"
  by (simp_all add: double_defs)

section \<open>Sets in insertion order\<close>

lemma new_Set_snoc: "new_Set (xs @ [x]) = Set_add (new_Set xs) x"
  by (simp add: new_Set_def)

lemma new_Set_first_seen: "new_Set xs = first_seen xs"
proof (induction xs rule: rev_induct)
  case Nil
  show ?case by (simp add: new_Set_def first_seen_def)
next
  case (snoc x xs)
  then show ?case by (simp add: new_Set_snoc Set_add_def first_seen_def)
qed

lemma set_first_seen: "set (first_seen xs) = set xs"
  by (simp add: first_seen_def)

section \<open>The resolved formats\<close>

lemma resolveFormats_path:
  assumes "source_path (src params) = Inr path"
  shows "resolveFormats env params =
    Inr (filter (\<lambda>f. f \<noteq> [])
      (Set_add (new_Set (formats params)) (replace_dot (extname env path))))"
proof (cases "src params")
  case (SrcString s)
  then show ?thesis using assms by (simp add: resolveFormats_def)
next
  case (SrcMetadata m)
  then show ?thesis using assms by (simp add: resolveFormats_def)
next
  case (SrcPromise pr)
  then show ?thesis using assms by (cases pr) (simp_all add: resolveFormats_def)
qed

text \<open>
  C2. The resolved formats are the declared formats without repetitions, in the order
  in which they are first seen, then the format of the extension of the source's path
  unless it is declared, the empty entries dropped. When the path has an extension,
  its format is among the resolved ones, whatever was declared.
\<close>

theorem resolveFormats_first_seen_then_native:
  assumes "source_path (src params) = Inr path"
  shows "resolveFormats env params =
      Inr (filter (\<lambda>f. f \<noteq> [])
        (first_seen (formats params) @
          (if replace_dot (extname env path) \<in> set (formats params) then []
           else [replace_dot (extname env path)])))
    \<and> (replace_dot (extname env path) \<noteq> [] \<longrightarrow>
         (\<exists>fs. resolveFormats env params = Inr fs \<and> replace_dot (extname env path) \<in> set fs))"
  by (simp add: resolveFormats_path [OF assms] new_Set_first_seen Set_add_def set_first_seen)

theorem resolveFormats_first_seen_then_native_witness:
  "source_path (src (example_params\<lparr>formats := [''webp'']\<rparr>)) = Inr ''photo.jpg''
   \<and> replace_dot (extname example_env ''photo.jpg'') = ''jpg''
   \<and> resolveFormats example_env (example_params\<lparr>formats := [''webp'']\<rparr>) = Inr [''webp'', ''jpg'']"
  using resolveFormats_first_seen_then_native
    [of "example_params\<lparr>formats := [''webp'']\<rparr>" "''photo.jpg''" example_env]
  by (simp add: example_params_def example_env_def posix_extname_def first_seen_def)

text \<open>
  C10. A source that is a path without an extension gives the empty format, which is
  dropped: the resolved formats are the declared ones without repetitions (and without
  empty entries, should the caller have declared one), and nothing is appended.
\<close>

theorem resolveFormats_no_extension:
  assumes "src params = SrcString path" and "extname env path = []"
  shows "replace_dot (extname env path) = []
    \<and> resolveFormats env params = Inr (filter (\<lambda>f. f \<noteq> []) (first_seen (formats params)))
    \<and> ([] \<notin> set (formats params) \<longrightarrow>
         resolveFormats env params = Inr (first_seen (formats params)))"
proof -
  have "filter (\<lambda>f. f \<noteq> []) (Set_add (first_seen (formats params)) []) =
        filter (\<lambda>f. f \<noteq> []) (first_seen (formats params))"
    by (simp add: Set_add_def)
  moreover have "[] \<notin> set (formats params) \<Longrightarrow>
        filter (\<lambda>f. f \<noteq> []) (first_seen (formats params)) = first_seen (formats params)"
    by (rule filter_True) (auto simp: set_first_seen)
  ultimately show ?thesis
    using assms by (simp add: resolveFormats_def new_Set_first_seen)
qed

theorem resolveFormats_no_extension_witness:
  "src (example_params\<lparr>src := SrcString ''images/photo'', formats := [''webp'', ''avif'', ''webp'']\<rparr>)
     = SrcString ''images/photo''
   \<and> extname example_env ''images/photo'' = []
   \<and> [] \<notin> set (formats (example_params\<lparr>src := SrcString ''images/photo'', formats := [''webp'', ''avif'', ''webp'']\<rparr>))
   \<and> resolveFormats example_env
        (example_params\<lparr>src := SrcString ''images/photo'', formats := [''webp'', ''avif'', ''webp'']\<rparr>)
       = Inr [''webp'', ''avif'']"
  using resolveFormats_no_extension
    [of "example_params\<lparr>src := SrcString ''images/photo'', formats := [''webp'', ''avif'', ''webp'']\<rparr>"
        "''images/photo''" example_env]
  by (simp add: example_params_def example_env_def posix_extname_def first_seen_def)

section \<open>The guards of getPicture\<close>

text \<open>
  C4. A source that is a path, with no aspect ratio given: \<open>parseAspectRatio\<close> then has
  nothing to parse and returns \<open>undefined\<close>, a path carries no dimensions, and
  \<open>getPicture\<close> throws the error that asks for an aspect ratio, before any call of the
  transformer.
\<close>

theorem getPicture_missing_aspect_ratio:
  assumes "src params = SrcString path" and "path \<noteq> []"
    and "widths params = Some ws"
    and "aspectRatio params = None" and "parseAspectRatio env None = None"
  shows "getPicture env params =
    (Inl (Error ''`aspectRatio` must be provided for remote images''), [])"
  using assms by (simp add: getPicture_def resolveAspectRatio_def)

theorem getPicture_missing_aspect_ratio_witness:
  "src (example_params\<lparr>aspectRatio := None\<rparr>) = SrcString ''photo.jpg''
   \<and> widths (example_params\<lparr>aspectRatio := None\<rparr>) = Some [Finite 400, Finite 800]
   \<and> aspectRatio (example_params\<lparr>aspectRatio := None\<rparr>) = None
   \<and> parseAspectRatio example_env None = None
   \<and> getPicture example_env (example_params\<lparr>aspectRatio := None\<rparr>) =
      (Inl (Error ''`aspectRatio` must be provided for remote images''), [])"
  using getPicture_missing_aspect_ratio
    [of "example_params\<lparr>aspectRatio := None\<rparr>" "''photo.jpg''" "[Finite 400, Finite 800]" example_env]
  by (simp add: example_params_def example_env_def)

text \<open>
  The second guard looks at \<open>widths\<close> as a whole and never at its entries: a negative
  width goes through, to the transformer and into the \<open>srcset\<close>.
\<close>

theorem getPicture_unchecked_widths_counterexample:
  "getPicture example_env (example_params\<lparr>widths := Some [Finite (- 100)]\<rparr>) =
    (Inr \<lparr>sources =
        [\<lparr>type_attr = ''image/avif'', srcset = ''avif/-100 -100w''\<rparr>,
         \<lparr>type_attr = ''image/webp'', srcset = ''webp/-100 -100w''\<rparr>,
         \<lparr>type_attr = ''image/jpeg'', srcset = ''jpg/-100 -100w''\<rparr>],
       image = \<lparr>img_src = ''jpg/-100'', img_other = []\<rparr>\<rparr>,
     [\<lparr>t_src = SrcString ''photo.jpg'', t_format = Some ''jpg'', t_width = Finite (- 100),
        t_height = None, t_aspectRatio = Some (Finite (3 / 2)), t_fit = None,
        t_position = None, t_background = None\<rparr>,
      \<lparr>t_src = SrcString ''photo.jpg'', t_format = Some ''avif'', t_width = Finite (- 100),
        t_height = Some (Finite (- 67)), t_aspectRatio = None, t_fit = None,
        t_position = None, t_background = None\<rparr>,
      \<lparr>t_src = SrcString ''photo.jpg'', t_format = Some ''webp'', t_width = Finite (- 100),
        t_height = Some (Finite (- 67)), t_aspectRatio = None, t_fit = None,
        t_position = None, t_background = None\<rparr>,
      \<lparr>t_src = SrcString ''photo.jpg'', t_format = Some ''jpg'', t_width = Finite (- 100),
        t_height = Some (Finite (- 67)), t_aspectRatio = None, t_fit = None,
        t_position = None, t_background = None\<rparr>])"
  by (simp add: example_defs getPicture_def getSource_def await_then_def)

text \<open>
  An empty array passes the second guard as well: the fallback image is then asked for
  with the width \<open>-Infinity\<close>, and every \<open>srcset\<close> is empty.
\<close>

lemma getPicture_empty_widths_example:
  "getPicture example_env (example_params\<lparr>widths := Some []\<rparr>) =
    (Inr \<lparr>sources =
        [\<lparr>type_attr = ''image/avif'', srcset = []\<rparr>,
         \<lparr>type_attr = ''image/webp'', srcset = []\<rparr>,
         \<lparr>type_attr = ''image/jpeg'', srcset = []\<rparr>],
       image = \<lparr>img_src = ''jpg/-Infinity'', img_other = []\<rparr>\<rparr>,
     [\<lparr>t_src = SrcString ''photo.jpg'', t_format = Some ''jpg'', t_width = NegInfinity,
        t_height = None, t_aspectRatio = Some (Finite (3 / 2)), t_fit = None,
        t_position = None, t_background = None\<rparr>])"
  by (simp add: example_defs getPicture_def getSource_def await_then_def)

section \<open>Promise.all\<close>

lemma Promise_all_Inr_iff:
  "snd (Promise_all ps) = Inr vs \<longleftrightarrow> map snd ps = map Inr vs"
proof (induction ps arbitrary: vs)
  case Nil
  show ?case by auto
next
  case (Cons p ps)
  obtain t r where p: "p = (t, r)" by (cases p)
  obtain t' r' where pa: "Promise_all ps = (t', r')" by (cases "Promise_all ps")
  show ?case
  proof (cases r)
    case (Inl e)
    then show ?thesis using p pa by (cases r') (auto split: if_splits)
  next
    case (Inr v)
    show ?thesis
    proof (cases r')
      case (Inl e')
      have "\<And>ws. map snd ps \<noteq> map Inr ws" using Cons.IH pa Inl by auto
      then show ?thesis using p pa Inl Inr by (cases vs) auto
    next
      case r': (Inr ws)
      have "map snd ps = map Inr ws" using Cons.IH[of ws] pa r' by simp
      then show ?thesis using p pa Inr r' by (cases vs) (auto dest: map_inj_on)
    qed
  qed
qed

lemma Promise_all_Inl:
  "snd (Promise_all ps) = Inl e \<Longrightarrow> \<exists>p\<in>set ps. snd p = Inl e"
proof (induction ps arbitrary: e)
  case Nil
  then show ?case by simp
next
  case (Cons p ps)
  obtain t r where p: "p = (t, r)" by (cases p)
  obtain t' r' where pa: "Promise_all ps = (t', r')" by (cases "Promise_all ps")
  show ?case using Cons p pa
    by (cases r; cases r') (auto split: if_splits)
qed

lemma Promise_all_rejects:
  "p \<in> set ps \<Longrightarrow> snd p = Inl e \<Longrightarrow> \<exists>e'. snd (Promise_all ps) = Inl e'"
proof (induction ps)
  case Nil
  then show ?case by simp
next
  case (Cons q ps)
  obtain t r where q: "q = (t, r)" by (cases q)
  obtain t' r' where pa: "Promise_all ps = (t', r')" by (cases "Promise_all ps")
  show ?case using Cons q pa
    by (cases r; cases r') (auto split: if_splits)
qed

lemma snd_await_then:
  "snd (await_then p f) = (case snd p of Inl e \<Rightarrow> Inl e | Inr v \<Rightarrow> Inr (f v))"
  by (simp add: await_then_def)

section \<open>getSource and getPicture, unfolded\<close>

lemma getSource_calls:
  "snd (getSource env params ws ratio format) =
     map (\<lambda>width. \<lparr>t_src = src params, t_format = Some format, t_width = width,
            t_height = Some (Math_round (divide_number width ratio)),
            t_aspectRatio = None, t_fit = fit params,
            t_position = position params, t_background = background params\<rparr>) ws"
  by (simp add: getSource_def Let_def comp_def)

lemma getSource_outcome:
  "snd (fst (getSource env params ws ratio format)) =
     (case snd (Promise_all (map (\<lambda>width.
         await_then (getImage env \<lparr>t_src = src params, t_format = Some format,
            t_width = width, t_height = Some (Math_round (divide_number width ratio)),
            t_aspectRatio = None, t_fit = fit params,
            t_position = position params, t_background = background params\<rparr>)
           (\<lambda>img. img_src img @ '' '' @ Number_toString env width @ ''w'')) ws)) of
        Inl e \<Rightarrow> Inl e
      | Inr imgs \<Rightarrow> Inr \<lparr>type_attr = (case mime_getType env format of
                            None \<Rightarrow> format
                          | Some t \<Rightarrow> if t = [] then format else t),
             srcset = join imgs '',''\<rparr>)"
  by (simp add: getSource_def Let_def comp_def snd_await_then)

lemma getPicture_valid:
  assumes "src params \<noteq> SrcString []" and "widths params = Some ws"
    and "resolveAspectRatio env params = Inr (Some ratio)" and "truthy ratio"
    and "resolveFormats env params = Inr fs"
  shows "getPicture env params =
    (case snd (getImage env \<lparr>t_src = src params,
            t_format = (if fs = [] then None else Some (last fs)),
            t_width = Math_max ws, t_height = None, t_aspectRatio = Some ratio,
            t_fit = fit params, t_position = position params,
            t_background = background params\<rparr>) of
       Inl e \<Rightarrow> (Inl e, [\<lparr>t_src = src params,
            t_format = (if fs = [] then None else Some (last fs)),
            t_width = Math_max ws, t_height = None, t_aspectRatio = Some ratio,
            t_fit = fit params, t_position = position params,
            t_background = background params\<rparr>])
     | Inr img \<Rightarrow>
        (case snd (Promise_all (map (\<lambda>f. fst (getSource env params ws ratio f)) fs)) of
            Inl e \<Rightarrow> Inl e
          | Inr srcs \<Rightarrow> Inr \<lparr>sources = srcs, image = img\<rparr>,
         \<lparr>t_src = src params,
            t_format = (if fs = [] then None else Some (last fs)),
            t_width = Math_max ws, t_height = None, t_aspectRatio = Some ratio,
            t_fit = fit params, t_position = position params,
            t_background = background params\<rparr>
          # concat (map (\<lambda>f. snd (getSource env params ws ratio f)) fs)))"
  using assms by (simp add: getPicture_def Let_def comp_def split: sum.splits)

lemma getPicture_Inr_valid:
  assumes "fst (getPicture env params) = Inr r"
  shows "src params \<noteq> SrcString [] \<and> (\<exists>ws ratio fs. widths params = Some ws
    \<and> resolveAspectRatio env params = Inr (Some ratio) \<and> truthy ratio
    \<and> resolveFormats env params = Inr fs)"
  using assms
  by (auto simp: getPicture_def split: if_splits option.splits sum.splits)

lemma map_eq_map_Inr:
  "map g xs = map Inr ys \<Longrightarrow>
     (\<forall>x\<in>set xs. \<exists>v. g x = Inr v) \<and> ys = map (\<lambda>x. projr (g x)) xs"
proof (induction xs arbitrary: ys)
  case Nil
  then show ?case by simp
next
  case (Cons x xs)
  then show ?case by (cases ys) auto
qed

lemma getSource_fulfilled:
  assumes "snd (fst (getSource env params ws ratio f)) = Inr s"
  shows "(\<forall>w\<in>set ws. \<exists>img. snd (getImage env (srcset_request params ratio f w)) = Inr img)
    \<and> s = \<lparr>type_attr = (case mime_getType env f of None \<Rightarrow> f
                          | Some t \<Rightarrow> if t = [] then f else t),
           srcset = join (map (\<lambda>w.
             img_src (projr (snd (getImage env (srcset_request params ratio f w))))
               @ '' '' @ Number_toString env w @ ''w'') ws) '',''\<rparr>"
proof -
  define tok where "tok = (\<lambda>w (img::ImgAttributes). img_src img @ '' '' @ Number_toString env w @ ''w'')"
  define out where "out = (\<lambda>w. snd (getImage env (srcset_request params ratio f w)))"
  let ?ps = "map (\<lambda>w. await_then (getImage env (srcset_request params ratio f w)) (tok w)) ws"
  from assms obtain imgs where all: "snd (Promise_all ?ps) = Inr imgs"
    and s: "s = \<lparr>type_attr = (case mime_getType env f of None \<Rightarrow> f
                          | Some t \<Rightarrow> if t = [] then f else t), srcset = join imgs '',''\<rparr>"
    unfolding tok_def by (auto simp: getSource_outcome split: sum.splits)
  from all have "map snd ?ps = map Inr imgs"
    by (simp only: Promise_all_Inr_iff)
  then have m: "map (\<lambda>w. case out w of Inl e \<Rightarrow> Inl e | Inr img \<Rightarrow> Inr (tok w img)) ws
       = map Inr imgs"
    by (simp add: comp_def snd_await_then out_def)
  have ok: "\<forall>w\<in>set ws. \<exists>img. out w = Inr img"
  proof
    fix w assume "w \<in> set ws"
    with map_eq_map_Inr [OF m] obtain v
      where "(case out w of Inl e \<Rightarrow> Inl e | Inr img \<Rightarrow> Inr (tok w img)) = Inr v"
      by blast
    then show "\<exists>img. out w = Inr img" by (cases "out w") auto
  qed
  have "imgs = map (\<lambda>w. projr (case out w of Inl e \<Rightarrow> Inl e
       | Inr img \<Rightarrow> Inr (tok w img))) ws"
    using map_eq_map_Inr [OF m] by simp
  also have "\<dots> = map (\<lambda>w. tok w (projr (out w))) ws"
    using ok by (intro map_cong refl) auto
  finally show ?thesis using ok s unfolding tok_def out_def by simp
qed

lemma getSource_rejected:
  assumes "snd (fst (getSource env params ws ratio f)) = Inl e"
  shows "\<exists>w\<in>set ws. snd (getImage env (srcset_request params ratio f w)) = Inl e"
proof -
  let ?ps = "map (\<lambda>w. await_then (getImage env (srcset_request params ratio f w))
           (\<lambda>img. img_src img @ '' '' @ Number_toString env w @ ''w'')) ws"
  from assms have "snd (Promise_all ?ps) = Inl e"
    by (auto simp: getSource_outcome split: sum.splits)
  then obtain p where "p \<in> set ?ps" and "snd p = Inl e"
    using Promise_all_Inl by blast
  then show ?thesis
    by (auto simp: snd_await_then split: sum.splits)
qed

lemma getSource_rejects:
  assumes "w \<in> set ws"
    and "snd (getImage env (srcset_request params ratio f w)) = Inl e"
  shows "\<exists>e'. snd (fst (getSource env params ws ratio f)) = Inl e'"
proof -
  let ?tok = "\<lambda>w. await_then (getImage env (srcset_request params ratio f w))
           (\<lambda>img. img_src img @ '' '' @ Number_toString env w @ ''w'')"
  have "?tok w \<in> set (map ?tok ws)" using assms(1) by simp
  moreover have "snd (?tok w) = Inl e" using assms(2) by (simp add: snd_await_then)
  ultimately obtain e' where "snd (Promise_all (map ?tok ws)) = Inl e'"
    using Promise_all_rejects by blast
  then show ?thesis by (simp add: getSource_outcome)
qed

lemma getPicture_sources:
  assumes "fst (getPicture env params) = Inr r"
    and "widths params = Some ws"
    and "resolveAspectRatio env params = Inr (Some ratio)"
    and "resolveFormats env params = Inr fs"
  shows "(\<forall>f\<in>set fs. \<forall>w\<in>set ws.
            \<exists>img. snd (getImage env (srcset_request params ratio f w)) = Inr img)
    \<and> sources r = map (\<lambda>f.
         \<lparr>type_attr = (case mime_getType env f of None \<Rightarrow> f
                          | Some t \<Rightarrow> if t = [] then f else t),
          srcset = join (map (\<lambda>w.
             img_src (projr (snd (getImage env (srcset_request params ratio f w))))
               @ '' '' @ Number_toString env w @ ''w'') ws) '',''\<rparr>) fs"
proof -
  from getPicture_Inr_valid [OF assms(1)] assms(2-4)
  have v: "src params \<noteq> SrcString []" "truthy ratio" by auto
  from assms(1) have "snd (Promise_all (map (\<lambda>f. fst (getSource env params ws ratio f)) fs))
      = Inr (sources r)"
    by (auto simp: getPicture_valid [OF v(1) assms(2,3) v(2) assms(4)] split: sum.splits)
  then have m: "map (\<lambda>f. snd (fst (getSource env params ws ratio f))) fs = map Inr (sources r)"
    by (simp add: Promise_all_Inr_iff comp_def)
  have ok: "\<forall>f\<in>set fs. \<exists>s. snd (fst (getSource env params ws ratio f)) = Inr s"
    using map_eq_map_Inr [OF m] by simp
  have "sources r = map (\<lambda>f. projr (snd (fst (getSource env params ws ratio f)))) fs"
    using map_eq_map_Inr [OF m] by simp
  also have "\<dots> = map (\<lambda>f.
         \<lparr>type_attr = (case mime_getType env f of None \<Rightarrow> f
                          | Some t \<Rightarrow> if t = [] then f else t),
          srcset = join (map (\<lambda>w.
             img_src (projr (snd (getImage env (srcset_request params ratio f w))))
               @ '' '' @ Number_toString env w @ ''w'') ws) '',''\<rparr>) fs"
  proof (intro map_cong refl)
    fix f assume "f \<in> set fs"
    with ok obtain s where s: "snd (fst (getSource env params ws ratio f)) = Inr s" by blast
    from getSource_fulfilled [OF s] s
    show "projr (snd (fst (getSource env params ws ratio f))) =
        \<lparr>type_attr = (case mime_getType env f of None \<Rightarrow> f
                          | Some t \<Rightarrow> if t = [] then f else t),
          srcset = join (map (\<lambda>w.
             img_src (projr (snd (getImage env (srcset_request params ratio f w))))
               @ '' '' @ Number_toString env w @ ''w'') ws) '',''\<rparr>"
      by simp
  qed
  finally have src: "sources r = map (\<lambda>f.
         \<lparr>type_attr = (case mime_getType env f of None \<Rightarrow> f
                          | Some t \<Rightarrow> if t = [] then f else t),
          srcset = join (map (\<lambda>w.
             img_src (projr (snd (getImage env (srcset_request params ratio f w))))
               @ '' '' @ Number_toString env w @ ''w'') ws) '',''\<rparr>) fs" .
  have "\<forall>f\<in>set fs. \<forall>w\<in>set ws.
            \<exists>img. snd (getImage env (srcset_request params ratio f w)) = Inr img"
  proof
    fix f assume "f \<in> set fs"
    with ok obtain s where s: "snd (fst (getSource env params ws ratio f)) = Inr s" by blast
    from getSource_fulfilled [OF s]
    show "\<forall>w\<in>set ws. \<exists>img. snd (getImage env (srcset_request params ratio f w)) = Inr img"
      by simp
  qed
  with src show ?thesis by simp
qed

lemma getSource_all_fulfilled:
  assumes "\<forall>w\<in>set ws. snd (getImage env (srcset_request params ratio f w)) = Inr (imgs w)"
  shows "snd (fst (getSource env params ws ratio f)) =
    Inr \<lparr>type_attr = (case mime_getType env f of None \<Rightarrow> f
                          | Some t \<Rightarrow> if t = [] then f else t),
         srcset = join (map (\<lambda>w. img_src (imgs w) @ '' '' @ Number_toString env w @ ''w'') ws)
                    '',''\<rparr>"
proof -
  define tok where
    "tok = (\<lambda>w (img::ImgAttributes). img_src img @ '' '' @ Number_toString env w @ ''w'')"
  let ?ps = "map (\<lambda>w. await_then (getImage env (srcset_request params ratio f w)) (tok w)) ws"
  have "map snd ?ps = map Inr (map (\<lambda>w. tok w (imgs w)) ws)"
    using assms by (simp add: comp_def snd_await_then)
  then have "snd (Promise_all ?ps) = Inr (map (\<lambda>w. tok w (imgs w)) ws)"
    by (simp only: Promise_all_Inr_iff)
  then show ?thesis
    unfolding tok_def by (simp add: getSource_outcome)
qed

lemma getPicture_all_fulfilled:
  assumes "src params \<noteq> SrcString []" and "widths params = Some ws"
    and "resolveAspectRatio env params = Inr (Some ratio)" and "truthy ratio"
    and "resolveFormats env params = Inr fs"
    and "snd (getImage env (fallback_request params ratio fs ws)) = Inr img"
    and "\<forall>f\<in>set fs. \<forall>w\<in>set ws.
           snd (getImage env (srcset_request params ratio f w)) = Inr (imgs f w)"
  shows "fst (getPicture env params) =
    Inr \<lparr>sources = map (\<lambda>f.
           \<lparr>type_attr = (case mime_getType env f of None \<Rightarrow> f
                          | Some t \<Rightarrow> if t = [] then f else t),
            srcset = join (map (\<lambda>w. img_src (imgs f w) @ '' '' @ Number_toString env w @ ''w'')
                        ws) '',''\<rparr>) fs,
         image = img\<rparr>"
proof -
  let ?s = "\<lambda>f. \<lparr>type_attr = (case mime_getType env f of None \<Rightarrow> f
                          | Some t \<Rightarrow> if t = [] then f else t),
            srcset = join (map (\<lambda>w. img_src (imgs f w) @ '' '' @ Number_toString env w @ ''w'')
                        ws) '',''\<rparr>"
  have "\<forall>f\<in>set fs. snd (fst (getSource env params ws ratio f)) = Inr (?s f)"
    using assms(7) by (intro ballI getSource_all_fulfilled) simp
  then have "map snd (map (\<lambda>f. fst (getSource env params ws ratio f)) fs) = map Inr (map ?s fs)"
    by (simp add: comp_def)
  then have "snd (Promise_all (map (\<lambda>f. fst (getSource env params ws ratio f)) fs))
      = Inr (map ?s fs)"
    by (simp only: Promise_all_Inr_iff)
  then show ?thesis
    using assms(6) by (simp add: getPicture_valid [OF assms(1-5)])
qed

lemma getPicture_calls_valid:
  assumes "snd (getPicture env params) \<noteq> []"
  shows "src params \<noteq> SrcString [] \<and> (\<exists>ws ratio fs. widths params = Some ws
    \<and> resolveAspectRatio env params = Inr (Some ratio) \<and> truthy ratio
    \<and> resolveFormats env params = Inr fs)"
  using assms
  by (auto simp: getPicture_def split: if_splits option.splits sum.splits)

lemma getPicture_calls:
  assumes "src params \<noteq> SrcString []" and "widths params = Some ws"
    and "resolveAspectRatio env params = Inr (Some ratio)" and "truthy ratio"
    and "resolveFormats env params = Inr fs"
  shows "snd (getPicture env params) =
    fallback_request params ratio fs ws #
      (case snd (getImage env (fallback_request params ratio fs ws)) of
         Inl e \<Rightarrow> []
       | Inr img \<Rightarrow> concat (map (\<lambda>f. map (srcset_request params ratio f) ws) fs))"
  by (simp add: getPicture_valid [OF assms] getSource_calls split: sum.splits)

section \<open>The sources\<close>

text \<open>
  C1. When the fallback call and the call for every resolved format and every width
  are fulfilled, at whatever times, \<open>getPicture\<close> returns, and \<open>sources\<close> has one entry
  for each resolved format, in the order of the resolved formats; the \<open>srcset\<close> of an
  entry is the tokens \<open>url widthw\<close>, one for each width in the order of the caller,
  joined by a comma and nothing else.
\<close>

theorem getPicture_srcset_per_format:
  assumes "src params \<noteq> SrcString []" and "widths params = Some ws"
    and "resolveAspectRatio env params = Inr (Some ratio)" and "truthy ratio"
    and "resolveFormats env params = Inr fs"
    and "snd (getImage env (fallback_request params ratio fs ws)) = Inr img"
    and "\<forall>f\<in>set fs. \<forall>w\<in>set ws.
           snd (getImage env (srcset_request params ratio f w)) = Inr (imgs f w)"
  shows "\<exists>r. fst (getPicture env params) = Inr r
    \<and> length (sources r) = length fs
    \<and> map srcset (sources r) =
        map (\<lambda>f. join (map (\<lambda>w. img_src (imgs f w) @ '' '' @ Number_toString env w @ ''w'') ws)
                   '','') fs"
  by (simp add: getPicture_all_fulfilled [OF assms] comp_def)

theorem getPicture_srcset_per_format_witness:
  "widths example_params = Some [Finite 400, Finite 800]
   \<and> resolveAspectRatio example_env example_params = Inr (Some (Finite (3 / 2)))
   \<and> resolveFormats example_env example_params = Inr [''avif'', ''webp'', ''jpg'']
   \<and> (\<exists>r. fst (getPicture example_env example_params) = Inr r
        \<and> length (sources r) = length [''avif'', ''webp'', ''jpg'']
        \<and> map srcset (sources r) =
            [''avif/400 400w,avif/800 800w'', ''webp/400 400w,webp/800 800w'',
             ''jpg/400 400w,jpg/800 800w''])"
  using getPicture_srcset_per_format [of example_params "[Finite 400, Finite 800]" example_env
    "Finite (3 / 2)" "[''avif'', ''webp'', ''jpg'']" "\<lparr>img_src = ''jpg/800'', img_other = []\<rparr>"
    "\<lambda>f w. \<lparr>img_src = f @ ''/'' @ whole_toString w, img_other = []\<rparr>"]
  by (simp add: example_defs)

text \<open>
  C8. The \<open>type\<close> of the entry for a format is the MIME type that \<open>mime.getType\<close>
  finds for it; when it finds none (or an empty one), the type is the format itself.
\<close>

theorem getPicture_source_type:
  assumes "fst (getPicture env params) = Inr r"
    and "resolveFormats env params = Inr fs"
  shows "length (sources r) = length fs
    \<and> (\<forall>i<length fs.
         (\<forall>t. mime_getType env (fs ! i) = Some t \<and> t \<noteq> [] \<longrightarrow>
              type_attr (sources r ! i) = t)
       \<and> (mime_getType env (fs ! i) = None \<or> mime_getType env (fs ! i) = Some [] \<longrightarrow>
              type_attr (sources r ! i) = fs ! i))"
proof -
  from getPicture_Inr_valid [OF assms(1)] obtain ws ratio
    where "widths params = Some ws" and "resolveAspectRatio env params = Inr (Some ratio)"
    by blast
  from getPicture_sources [OF assms(1) this assms(2)]
  have "map type_attr (sources r) =
      map (\<lambda>f. case mime_getType env f of None \<Rightarrow> f
                | Some t \<Rightarrow> if t = [] then f else t) fs"
    by (simp add: comp_def)
  then have len: "length (sources r) = length fs"
    and nth: "\<And>i. i < length fs \<Longrightarrow> type_attr (sources r ! i) =
      (case mime_getType env (fs ! i) of None \<Rightarrow> fs ! i
       | Some t \<Rightarrow> if t = [] then fs ! i else t)"
    by (auto dest: map_eq_imp_length_eq simp: list_eq_iff_nth_eq)
  show ?thesis using len nth by auto
qed

theorem getPicture_source_type_witness:
  "resolveFormats example_env (example_params\<lparr>formats := [''avif'', ''jxl'']\<rparr>)
     = Inr [''avif'', ''jxl'', ''jpg'']
   \<and> mime_getType example_env ''avif'' = Some ''image/avif''
   \<and> mime_getType example_env ''jxl'' = None
   \<and> (\<exists>r. fst (getPicture example_env (example_params\<lparr>formats := [''avif'', ''jxl'']\<rparr>)) = Inr r
        \<and> type_attr (sources r ! 0) = ''image/avif'' \<and> type_attr (sources r ! 1) = ''jxl'')"
proof -
  let ?p = "example_params\<lparr>formats := [''avif'', ''jxl'']\<rparr>"
  have fs: "resolveFormats example_env ?p = Inr [''avif'', ''jxl'', ''jpg'']"
    by (simp add: example_defs)
  have avif: "mime_getType example_env ''avif'' = Some ''image/avif''"
    and jxl: "mime_getType example_env ''jxl'' = None"
    by (simp_all add: example_env_def image_getType_def)
  obtain r where r: "fst (getPicture example_env ?p) = Inr r"
    by (simp add: example_defs getPicture_def getSource_def await_then_def)
  note types = getPicture_source_type [OF r fs]
  from types have "type_attr (sources r ! 0) = ''image/avif''"
    using avif by simp
  moreover from types have "type_attr (sources r ! 1) = ''jxl''"
    using jxl by simp
  ultimately show ?thesis using r fs avif jxl by blast
qed

section \<open>The requests made\<close>

lemma max_step_Finite: "max_step (Finite a) (Finite q) = Finite (max a q)"
  by (simp add: max_def)

lemma Max_insert_max:
  "finite S \<Longrightarrow> Max (insert (max a q) S) = Max (insert a (insert q S))"
  by (cases "S = {}") (simp_all add: max.assoc)

lemma foldl_max_step_Finite:
  "foldl max_step (Finite a) (map Finite qs) = Finite (Max (insert a (set qs)))"
proof (induction qs arbitrary: a)
  case Nil
  show ?case by simp
next
  case (Cons q qs)
  have "foldl max_step (Finite a) (map Finite (q # qs)) =
        foldl max_step (Finite (max a q)) (map Finite qs)"
    by (simp only: list.map foldl_Cons max_step_Finite)
  also have "\<dots> = Finite (Max (insert (max a q) (set qs)))"
    by (rule Cons.IH)
  also have "\<dots> = Finite (Max (insert a (set (q # qs))))"
    by (simp add: Max_insert_max del: Max_insert)
  finally show ?case .
qed

lemma Math_max_Finite:
  "qs \<noteq> [] \<Longrightarrow> Math_max (map Finite qs) = Finite (Max (set qs))"
  by (cases qs) (simp_all add: Math_max_def foldl_max_step_Finite)

text \<open>
  C3. Once the guards are passed, the first call of \<open>getImage\<close> is the one for the
  fallback image: its width is \<open>Math.max\<close> of the widths, which is their maximum when
  they are finite numbers and there is one at least, and its format is the last of the
  resolved formats; the image of the result is what this call returns.
\<close>

theorem getPicture_fallback_max_width_last_format:
  assumes "src params \<noteq> SrcString []" and "widths params = Some ws"
    and "resolveAspectRatio env params = Inr (Some ratio)" and "truthy ratio"
    and "resolveFormats env params = Inr fs"
  shows "(\<exists>calls. snd (getPicture env params) =
        \<lparr>t_src = src params, t_format = (if fs = [] then None else Some (last fs)),
         t_width = Math_max ws, t_height = None, t_aspectRatio = Some ratio,
         t_fit = fit params, t_position = position params,
         t_background = background params\<rparr> # calls)
    \<and> (\<forall>r. fst (getPicture env params) = Inr r \<longrightarrow>
          snd (getImage env (hd (snd (getPicture env params)))) = Inr (image r))
    \<and> (\<forall>qs. qs \<noteq> [] \<and> ws = map Finite qs \<longrightarrow> Math_max ws = Finite (Max (set qs)))"
proof -
  have "\<forall>r. fst (getPicture env params) = Inr r \<longrightarrow>
          snd (getImage env (hd (snd (getPicture env params)))) = Inr (image r)"
    by (auto simp: getPicture_calls [OF assms] getPicture_valid [OF assms] split: sum.splits)
  then show ?thesis
    by (simp add: getPicture_calls [OF assms] Math_max_Finite)
qed

theorem getPicture_fallback_max_width_last_format_witness:
  "widths example_params = Some (map Finite [400, 800])
   \<and> resolveFormats example_env example_params = Inr [''avif'', ''webp'', ''jpg'']
   \<and> hd (snd (getPicture example_env example_params)) =
        \<lparr>t_src = SrcString ''photo.jpg'', t_format = Some ''jpg'',
         t_width = Finite 800, t_height = None, t_aspectRatio = Some (Finite (3 / 2)),
         t_fit = None, t_position = None, t_background = None\<rparr>
   \<and> Math_max (map Finite [400, 800]) = Finite (Max (set [400, 800]))"
  using getPicture_fallback_max_width_last_format [of example_params "map Finite [400, 800]"
    example_env "Finite (3 / 2)" "[''avif'', ''webp'', ''jpg'']"]
  by (auto simp: example_defs)

text \<open>
  C7. Every call that follows the fallback call asks for the height
  \<open>Math.round(width / aspectRatio)\<close> of its own width, the ratio being the resolved
  one, and when the fallback call is fulfilled these calls are one for every resolved
  format and every width, formats first. For a finite width \<open>x\<close> and ratio \<open>r\<close> with a
  finite quotient, the quotient is a double that no other double beats in its distance
  to \<open>x / r\<close>, and the height is the integer nearest to that double, the upper one
  of two (written \<open>-0\<close> when it is zero and the quotient is negative).
\<close>

theorem getPicture_srcset_heights:
  assumes "src params \<noteq> SrcString []" and "widths params = Some ws"
    and "resolveAspectRatio env params = Inr (Some ratio)" and "truthy ratio"
    and "resolveFormats env params = Inr fs"
  shows "(\<forall>options\<in>set (tl (snd (getPicture env params))).
           t_height options = Some (Math_round (divide_number (t_width options) ratio)))
    \<and> (\<forall>img. snd (getImage env (hd (snd (getPicture env params)))) = Inr img \<longrightarrow>
          tl (snd (getPicture env params)) =
            concat (map (\<lambda>f. map (\<lambda>w.
              \<lparr>t_src = src params, t_format = Some f, t_width = w,
               t_height = Some (Math_round (divide_number w ratio)),
               t_aspectRatio = None, t_fit = fit params,
               t_position = position params, t_background = background params\<rparr>) ws) fs))
    \<and> (\<forall>options\<in>set (tl (snd (getPicture env params))). \<forall>x r q.
          t_width options = Finite x \<and> ratio = Finite r
            \<and> divide_number (Finite x) (Finite r) = Finite q \<longrightarrow>
          is_double q \<and> (\<forall>d. is_double d \<longrightarrow> \<bar>q - x / r\<bar> \<le> \<bar>d - x / r\<bar>)
          \<and> (\<exists>n. real_of_int n \<le> q + 1 / 2 \<and> q + 1 / 2 < real_of_int n + 1
                \<and> t_height options =
                    Some (if n = 0 \<and> q < 0 then NegZero else Finite (of_int n))))"
proof -
  have heights: "\<forall>options\<in>set (tl (snd (getPicture env params))).
      t_height options = Some (Math_round (divide_number (t_width options) ratio))"
    by (auto simp: getPicture_calls [OF assms] split: sum.splits)
  have calls: "\<forall>img. snd (getImage env (hd (snd (getPicture env params)))) = Inr img \<longrightarrow>
      tl (snd (getPicture env params)) =
        concat (map (\<lambda>f. map (\<lambda>w.
          \<lparr>t_src = src params, t_format = Some f, t_width = w,
           t_height = Some (Math_round (divide_number w ratio)),
           t_aspectRatio = None, t_fit = fit params,
           t_position = position params, t_background = background params\<rparr>) ws) fs)"
    by (auto simp: getPicture_calls [OF assms] split: sum.splits)
  have "is_double q \<and> (\<forall>d. is_double d \<longrightarrow> \<bar>q - x / r\<bar> \<le> \<bar>d - x / r\<bar>)
      \<and> (\<exists>n. real_of_int n \<le> q + 1 / 2 \<and> q + 1 / 2 < real_of_int n + 1
            \<and> t_height options = Some (if n = 0 \<and> q < 0 then NegZero else Finite (of_int n)))"
    if "options \<in> set (tl (snd (getPicture env params)))"
      and "t_width options = Finite x \<and> ratio = Finite r
        \<and> divide_number (Finite x) (Finite r) = Finite q"
    for options x r q
  proof -
    from that heights have "t_height options = Some (Math_round (Finite q))" by simp
    with Math_round_nearest_integer [of q] divide_number_nearest [of x r q] that(2)
    show ?thesis by auto
  qed
  with heights calls show ?thesis by blast
qed

theorem getPicture_srcset_heights_witness:
  "widths imported_params = Some [Finite 350, Finite 800]
   \<and> resolveAspectRatio example_env imported_params
        = Inr (Some (Finite (1261007895663739 / 1125899906842624)))
   \<and> resolveFormats example_env imported_params = Inr [''webp'', ''png'']
   \<and> divide_number (Finite 350) (Finite (1261007895663739 / 1125899906842624))
        = Finite (5497558138879999 / 17592186044416)
   \<and> map (\<lambda>options. (t_format options, t_width options, t_height options))
        (tl (snd (getPicture example_env imported_params))) =
      [(Some ''webp'', Finite 350, Some (Finite 312)), (Some ''webp'', Finite 800, Some (Finite 714)),
       (Some ''png'', Finite 350, Some (Finite 312)), (Some ''png'', Finite 800, Some (Finite 714))]"
  using getPicture_srcset_heights [of imported_params "[Finite 350, Finite 800]"
    example_env "Finite (1261007895663739 / 1125899906842624)" "[''webp'', ''png'']"]
  by (simp add: example_defs imported_params_def getPicture_def)

section \<open>Failures\<close>

lemma getPicture_rejects_with_failed_call:
  assumes "options \<in> set (snd (getPicture env params))"
    and "snd (getImage env options) = Inl e"
  shows "\<exists>failed\<in>set (snd (getPicture env params)).
           \<exists>e'. snd (getImage env failed) = Inl e' \<and> fst (getPicture env params) = Inl e'"
proof -
  from assms(1) have "snd (getPicture env params) \<noteq> []" by auto
  from getPicture_calls_valid [OF this] obtain ws ratio fs
    where v: "src params \<noteq> SrcString []" "widths params = Some ws"
      "resolveAspectRatio env params = Inr (Some ratio)" "truthy ratio"
      "resolveFormats env params = Inr fs"
    by blast
  note calls = getPicture_calls [OF v]
  note valid = getPicture_valid [OF v]
  show ?thesis
  proof (cases "snd (getImage env (fallback_request params ratio fs ws))")
    case (Inl e0)
    then show ?thesis by (simp add: calls valid)
  next
    case (Inr img)
    with assms calls obtain f w where fw: "f \<in> set fs" "w \<in> set ws"
      and o: "options = srcset_request params ratio f w"
      by auto
    from getSource_rejects [OF fw(2)] assms(2) o
    obtain e1 where "snd (fst (getSource env params ws ratio f)) = Inl e1" by blast
    with fw(1) have "\<exists>p\<in>set (map (\<lambda>f. fst (getSource env params ws ratio f)) fs).
        snd p = Inl e1"
      by auto
    then obtain e2
      where e2: "snd (Promise_all (map (\<lambda>f. fst (getSource env params ws ratio f)) fs)) = Inl e2"
      using Promise_all_rejects by blast
    from Promise_all_Inl [OF e2] obtain f' where f': "f' \<in> set fs"
      and "snd (fst (getSource env params ws ratio f')) = Inl e2"
      by auto
    from getSource_rejected [OF this(2)] obtain w' where w': "w' \<in> set ws"
      and failed: "snd (getImage env (srcset_request params ratio f' w')) = Inl e2"
      by blast
    have "srcset_request params ratio f' w' \<in> set (snd (getPicture env params))"
      using f' w' Inr by (auto simp: calls)
    moreover have "fst (getPicture env params) = Inl e2"
      using Inr e2 by (simp add: valid)
    ultimately show ?thesis using failed by blast
  qed
qed

text \<open>
  C6. When a call of \<open>getImage\<close> that \<open>getPicture\<close> has started is rejected, \<open>getPicture\<close>
  returns no result: it is rejected with the error of a rejected call, which is that
  very error when no call fails in another way.
\<close>

theorem getPicture_transform_failure:
  assumes "options \<in> set (snd (getPicture env params))"
    and "snd (getImage env options) = Inl e"
  shows "(\<exists>failed\<in>set (snd (getPicture env params)).
           \<exists>e'. snd (getImage env failed) = Inl e' \<and> fst (getPicture env params) = Inl e')
    \<and> ((\<forall>other\<in>set (snd (getPicture env params)).
            \<forall>e'. snd (getImage env other) = Inl e' \<longrightarrow> e' = e)
         \<longrightarrow> fst (getPicture env params) = Inl e)"
  using getPicture_rejects_with_failed_call [OF assms] by auto

theorem getPicture_transform_failure_witness:
  "\<lparr>t_src = SrcString ''photo.jpg'', t_format = Some ''webp'', t_width = Finite 800,
     t_height = Some (Finite 533), t_aspectRatio = None, t_fit = None, t_position = None,
     t_background = None\<rparr> \<in> set (snd (getPicture failing_env example_params))
   \<and> snd (getImage failing_env
        \<lparr>t_src = SrcString ''photo.jpg'', t_format = Some ''webp'', t_width = Finite 800,
         t_height = Some (Finite 533), t_aspectRatio = None, t_fit = None, t_position = None,
         t_background = None\<rparr>) = Inl (Error ''out of memory'')
   \<and> fst (getPicture failing_env example_params) = Inl (Error ''out of memory'')"
proof -
  let ?o = "\<lparr>t_src = SrcString ''photo.jpg'', t_format = Some ''webp'', t_width = Finite 800,
     t_height = Some (Finite 533), t_aspectRatio = None, t_fit = None, t_position = None,
     t_background = None\<rparr>"
  have calls: "?o \<in> set (snd (getPicture failing_env example_params))"
    by (simp add: example_defs getPicture_def getSource_def)
  have fails: "snd (getImage failing_env ?o) = Inl (Error ''out of memory'')"
    by (simp add: failing_env_def)
  have only: "\<forall>other\<in>set (snd (getPicture failing_env example_params)).
      \<forall>e'. snd (getImage failing_env other) = Inl e' \<longrightarrow> e' = Error ''out of memory''"
    by (simp add: failing_env_def echo_getImage_def)
  from getPicture_transform_failure [OF calls fails] only
  have "fst (getPicture failing_env example_params) = Inl (Error ''out of memory'')"
    by blast
  with calls fails show ?thesis by blast
qed

text \<open>
  C5, amended. \<open>getPicture\<close> throws the error that asks for a width when \<open>widths\<close> is
  missing or is not an array (the source being there). The entries of an array are not
  checked: with an array that is not empty, whatever the sign of its numbers,
  \<open>getPicture\<close> returns a result as soon as an aspect ratio and the formats are resolved
  and the transformer fulfils its calls.
\<close>

theorem getPicture_widths_guard:
  "(src params \<noteq> SrcString [] \<and> widths params = None \<longrightarrow>
      getPicture env params =
        (Inl (Error ''[@astrojs/image] at least one `width` is required''), []))
   \<and> (src params \<noteq> SrcString [] \<and> widths params = Some ws \<and> ws \<noteq> []
       \<and> resolveAspectRatio env params = Inr (Some ratio) \<and> truthy ratio
       \<and> resolveFormats env params = Inr fs
       \<and> (\<forall>options. \<exists>img. snd (getImage env options) = Inr img) \<longrightarrow>
      (\<exists>r. fst (getPicture env params) = Inr r))"
proof (intro conjI impI)
  assume "src params \<noteq> SrcString [] \<and> widths params = None"
  then show "getPicture env params =
        (Inl (Error ''[@astrojs/image] at least one `width` is required''), [])"
    by (simp add: getPicture_def)
next
  assume a: "src params \<noteq> SrcString [] \<and> widths params = Some ws \<and> ws \<noteq> []
       \<and> resolveAspectRatio env params = Inr (Some ratio) \<and> truthy ratio
       \<and> resolveFormats env params = Inr fs
       \<and> (\<forall>options. \<exists>img. snd (getImage env options) = Inr img)"
  then obtain img where img: "snd (getImage env (fallback_request params ratio fs ws)) = Inr img"
    by blast
  have all: "\<forall>f\<in>set fs. \<forall>w\<in>set ws. snd (getImage env (srcset_request params ratio f w)) =
      Inr (projr (snd (getImage env (srcset_request params ratio f w))))"
  proof (intro ballI)
    fix f w
    from a obtain v where "snd (getImage env (srcset_request params ratio f w)) = Inr v"
      by blast
    then show "snd (getImage env (srcset_request params ratio f w)) =
      Inr (projr (snd (getImage env (srcset_request params ratio f w))))"
      by simp
  qed
  from a have v: "src params \<noteq> SrcString []" "widths params = Some ws"
      "resolveAspectRatio env params = Inr (Some ratio)" "truthy ratio"
      "resolveFormats env params = Inr fs"
    by simp_all
  from getPicture_all_fulfilled [OF v img all]
  show "\<exists>r. fst (getPicture env params) = Inr r" by blast
qed

theorem getPicture_widths_guard_witness:
  "src (example_params\<lparr>widths := None\<rparr>) \<noteq> SrcString []
   \<and> widths (example_params\<lparr>widths := None\<rparr>) = None
   \<and> getPicture example_env (example_params\<lparr>widths := None\<rparr>) =
        (Inl (Error ''[@astrojs/image] at least one `width` is required''), [])
   \<and> widths (example_params\<lparr>widths := Some [Finite 0, Finite (- 100)]\<rparr>)
        = Some [Finite 0, Finite (- 100)]
   \<and> (\<forall>options. \<exists>img. snd (getImage example_env options) = Inr img)
   \<and> (\<exists>r. fst (getPicture example_env
          (example_params\<lparr>widths := Some [Finite 0, Finite (- 100)]\<rparr>)) = Inr r)"
  using getPicture_widths_guard [of "example_params\<lparr>widths := None\<rparr>" example_env]
    getPicture_widths_guard [of "example_params\<lparr>widths := Some [Finite 0, Finite (- 100)]\<rparr>"
      example_env "[Finite 0, Finite (- 100)]" "Finite (3 / 2)" "[''avif'', ''webp'', ''jpg'']"]
  by (simp add: example_defs)

section \<open>Determinism\<close>

lemma getSource_same_outcomes:
  assumes "\<forall>options. snd (g options) = snd (getImage env options)"
    and "snd (fst (getSource env params ws ratio f)) = Inr s"
  shows "snd (fst (getSource (env\<lparr>getImage := g\<rparr>) params ws ratio f)) = Inr s"
proof -
  from getSource_fulfilled [OF assms(2)]
  have ok: "\<forall>w\<in>set ws. snd (getImage (env\<lparr>getImage := g\<rparr>)
        (srcset_request params ratio f w)) =
        Inr (projr (snd (getImage env (srcset_request params ratio f w))))"
    and s: "s = \<lparr>type_attr = (case mime_getType env f of None \<Rightarrow> f
                          | Some t \<Rightarrow> if t = [] then f else t),
           srcset = join (map (\<lambda>w.
             img_src (projr (snd (getImage env (srcset_request params ratio f w))))
               @ '' '' @ Number_toString env w @ ''w'') ws) '',''\<rparr>"
    using assms(1) by auto
  from getSource_all_fulfilled [OF ok] s show ?thesis by simp
qed

lemma resolve_getImage_update:
  "resolveAspectRatio (env\<lparr>getImage := g\<rparr>) params = resolveAspectRatio env params"
  "resolveFormats (env\<lparr>getImage := g\<rparr>) params = resolveFormats env params"
  by (simp_all add: resolveAspectRatio_def resolveFormats_def Let_def
      split: src_value.splits sum.splits)

text \<open>
  C9. Take a call of \<open>getPicture\<close> that returns a result, and a second call with the same
  arguments in which the transformer answers every request as in the first, settling
  its calls at whatever times: the second call returns the same result, after the same
  requests.
\<close>

theorem getPicture_deterministic:
  assumes "\<forall>options. snd (g options) = snd (getImage env options)"
    and "fst (getPicture env params) = Inr r"
  shows "getPicture (env\<lparr>getImage := g\<rparr>) params = getPicture env params"
proof -
  let ?env' = "env\<lparr>getImage := g\<rparr>"
  from getPicture_Inr_valid [OF assms(2)] obtain ws ratio fs
    where v: "src params \<noteq> SrcString []" "widths params = Some ws"
      "resolveAspectRatio env params = Inr (Some ratio)" "truthy ratio"
      "resolveFormats env params = Inr fs"
    by blast
  have v': "resolveAspectRatio ?env' params = Inr (Some ratio)"
    "resolveFormats ?env' params = Inr fs"
    using v by (simp_all add: resolve_getImage_update)
  from assms(2) obtain img
    where img: "snd (getImage env (fallback_request params ratio fs ws)) = Inr img"
      and all: "snd (Promise_all (map (\<lambda>f. fst (getSource env params ws ratio f)) fs))
        = Inr (sources r)"
    by (auto simp: getPicture_valid [OF v] split: sum.splits)
  from all have m: "map (\<lambda>f. snd (fst (getSource env params ws ratio f))) fs
      = map Inr (sources r)"
    by (simp add: Promise_all_Inr_iff comp_def)
  have "map (\<lambda>f. snd (fst (getSource ?env' params ws ratio f))) fs =
        map (\<lambda>f. snd (fst (getSource env params ws ratio f))) fs"
  proof (intro map_cong refl)
    fix f assume "f \<in> set fs"
    with map_eq_map_Inr [OF m] obtain s
      where s: "snd (fst (getSource env params ws ratio f)) = Inr s" by blast
    from getSource_same_outcomes [OF assms(1) s] s
    show "snd (fst (getSource ?env' params ws ratio f)) =
        snd (fst (getSource env params ws ratio f))"
      by simp
  qed
  with m have "map snd (map (\<lambda>f. fst (getSource ?env' params ws ratio f)) fs)
      = map Inr (sources r)"
    by (simp add: comp_def)
  then have all': "snd (Promise_all (map (\<lambda>f. fst (getSource ?env' params ws ratio f)) fs))
      = Inr (sources r)"
    by (simp only: Promise_all_Inr_iff)
  have img': "snd (getImage ?env' (fallback_request params ratio fs ws)) = Inr img"
    using assms(1) img by simp
  show ?thesis
    using img img' all all'
    by (simp add: getPicture_valid [OF v] getPicture_valid [OF v(1,2) v'(1) v(4) v'(2)]
        getSource_calls)
qed

theorem getPicture_deterministic_witness:
  "(\<forall>options. snd (0::nat, snd (echo_getImage options)) = snd (getImage example_env options))
   \<and> (\<exists>r. fst (getPicture example_env example_params) = Inr r)
   \<and> getPicture (example_env\<lparr>getImage := \<lambda>options. (0, snd (echo_getImage options))\<rparr>)
        example_params = getPicture example_env example_params"
proof -
  have same: "\<forall>options. snd (0::nat, snd (echo_getImage options))
      = snd (getImage example_env options)"
    by (simp add: example_env_def)
  obtain r where r: "fst (getPicture example_env example_params) = Inr r"
    by (simp add: example_defs getPicture_def getSource_def await_then_def)
  from getPicture_deterministic [OF same r] same r show ?thesis by blast
qed

end
